theory Spec2Isabelle
  imports Main "HOL-Library.AList"
begin

section \<open>Values, errors and dictionaries\<close>

text \<open>
  The result files are JSON documents. Numbers are only ever carried from one place to
  another by the migration code (never computed with), so an integer payload stands for
  them. A Python \<open>dict\<close> keeps its keys in insertion order; it is an association list
  here, read with \<open>map_of\<close>, written with \<open>AList.update\<close> (an existing key keeps its
  position, a new key goes last) and \<open>AList.delete\<close>.
\<close>

datatype json =
    JNull
  | JNum int
  | JStr string
  | JList "json list"
  | JDict "(string \<times> json) list"

text \<open>
  \<open>UserError\<close> carries a formatted message in the source; the message is kept as the
  format that was used together with its arguments.
\<close>

datatype user_message =
    ConflictingIndex string string
  | NonContiguousIndex int int
  | ValuesNotUnique
  | WrongDefault
  | NotAdjacent string string string
  | InsertAfterNotFound string string
  | InsertBeforeNotFound string string
  | EmptyOctobusResults

datatype error =
    NotReadyForMigrationsError
  | NoMigrationFilesFound
  | MigrationDoesNotExist int
  | UnknownTarget string
  | UserError user_message
  | ValueError
  | KeyError string
  | IndexError
  | TypeError
  | AssertionError

fun mapM :: "('a \<Rightarrow> error + 'b) \<Rightarrow> 'a list \<Rightarrow> error + 'b list" where
  "mapM f [] = Inr []"
| "mapM f (x # xs) =
     (case f x of
        Inl e \<Rightarrow> Inl e
      | Inr y \<Rightarrow> (case mapM f xs of Inl e \<Rightarrow> Inl e | Inr ys \<Rightarrow> Inr (y # ys)))"

section \<open>Migration names and indexes\<close>

definition MIGRATIONS_KEY :: string where
  "MIGRATIONS_KEY = ''octobus_migration_version''"

definition NO_MIGRATION_INDEX :: string where
  "NO_MIGRATION_INDEX = ''0000''"



text \<open>
  Python's \<open>int(s)\<close> on a string: surrounding ASCII whitespace is dropped, one sign is
  allowed, then at least one decimal digit and nothing else (the text never holds an
  underscore here, since it is what precedes the first one). Anything else raises
  \<open>ValueError\<close>. Digits and spaces outside ASCII, which Python accepts as well, are
  not modelled: a name that holds one has no index here.
\<close>

definition is_space :: "char \<Rightarrow> bool" where
  "is_space c \<longleftrightarrow>
     c \<in> set [CHR '' '', CHR 0x09, CHR 0x0A, CHR 0x0B, CHR 0x0C, CHR 0x0D,
              CHR 0x1C, CHR 0x1D, CHR 0x1E, CHR 0x1F]"

definition digit_of :: "char \<Rightarrow> int option" where
  "digit_of c = map_of
     [(CHR ''0'', 0), (CHR ''1'', 1), (CHR ''2'', 2), (CHR ''3'', 3), (CHR ''4'', 4),
      (CHR ''5'', 5), (CHR ''6'', 6), (CHR ''7'', 7), (CHR ''8'', 8), (CHR ''9'', 9)] c"

fun digits_value :: "int \<Rightarrow> string \<Rightarrow> error + int" where
  "digits_value acc [] = Inr acc"
| "digits_value acc (c # cs) =
     (case digit_of c of
        None \<Rightarrow> Inl ValueError
      | Some d \<Rightarrow> digits_value (10 * acc + d) cs)"

definition strip :: "string \<Rightarrow> string" where
  "strip s = rev (dropWhile is_space (rev (dropWhile is_space s)))"

definition py_int :: "string \<Rightarrow> error + int" where
  "py_int s =
     (case strip s of
        [] \<Rightarrow> Inl ValueError
      | c # cs \<Rightarrow>
          if c = CHR ''-'' then
            (if cs = [] then Inl ValueError
             else case digits_value 0 cs of Inl e \<Rightarrow> Inl e | Inr n \<Rightarrow> Inr (- n))
          else if c = CHR ''+'' then
            (if cs = [] then Inl ValueError else digits_value 0 cs)
          else digits_value 0 (c # cs))"

definition get_migration_index :: "string \<Rightarrow> error + int" where
  "get_migration_index migration_name =
     py_int (takeWhile (\<lambda>c. c \<noteq> CHR ''_'') migration_name)"


section \<open>Result files, operations and the executor\<close>

text \<open>
  A result file is a dictionary; the keys the migration code reads are fields here, absent
  when \<open>None\<close>, and every other key is carried in \<open>other_keys\<close>. \<open>results\<close> is the
  column form (benchmark name to its columns, in the order of \<open>result_columns\<close>),
  \<open>octobus_results\<close> the object form (benchmark name to its records, each record a
  dictionary), \<open>bench_param_names\<close> the parameter names of each benchmark.
\<close>

type_synonym pydict = "(string \<times> json) list"

record file_contents =
  migration_version :: "string option"
  result_columns :: "string list option"
  results :: "(string \<times> json list) list option"
  octobus_results :: "(string \<times> pydict list) list option"
  bench_param_names :: "(string \<times> string list) list option"
  other_keys :: pydict

text \<open>
  The fields an \<open>AddBenchParam\<close> stores. \<open>targets\<close> is the compiled regular expression,
  kept as what \<open>targets.match\<close> answers on a benchmark name.
\<close>

record AddBenchParam =
  param_name :: string
  param_values :: "string list"
  param_default :: string
  targets :: "string \<Rightarrow> bool"
  insert_after :: "string option"
  insert_before :: "string option"

text \<open>
  The executor. \<open>all_migrations\<close> holds the keys of the ordered dictionary of migration
  files (the paths, its values, are only used to load the files),
  \<open>all_benchmarks_data\<close> the \<open>param_names\<close> of each benchmark of the catalog, and
  \<open>migration_operations\<close> the operations of the \<open>Migration\<close> class that loading the
  file of a migration yields. Loading runs the code of the file, outside what is modelled;
  it is taken to succeed, whether it is the first time or answered from the cache.
\<close>

record executor =
  all_migrations :: "string list"
  target :: string
  all_benchmarks_data :: "string \<rightharpoonup> string list"
  migration_operations :: "string \<Rightarrow> AddBenchParam list"

text \<open>The keys of \<open>OrderedDict(pairs)\<close>: a key that comes again keeps its first place.\<close>

definition ordered_dict_keys :: "string list \<Rightarrow> string list" where
  "ordered_dict_keys ks = foldl (\<lambda>d k. if k \<in> set d then d else d @ [k]) [] ks"

text \<open>The loop of \<open>Executor.__init__\<close> over the sorted names, with its two locals.\<close>

fun check_indexes :: "string list \<Rightarrow> (int \<rightharpoonup> string) \<Rightarrow> int \<Rightarrow> error + unit" where
  "check_indexes [] seen last_index = Inr ()"
| "check_indexes (name # names) seen last_index =
     (case get_migration_index name of
        Inl e \<Rightarrow> Inl e
      | Inr index \<Rightarrow>
          (case seen index of
             Some conflict \<Rightarrow> Inl (UserError (ConflictingIndex conflict name))
           | None \<Rightarrow>
               if last_index \<noteq> index - 1
               then Inl (UserError (NonContiguousIndex last_index index))
               else check_indexes names (seen(index \<mapsto> name)) index))"

text \<open>
  \<open>Executor.__init__\<close>; \<open>found\<close> is the list of names the glob yields (file names without
  \<open>.py\<close>), in the order it yields them. Sorting calls the key on every name first.
\<close>

definition sorted_migrations :: "string list \<Rightarrow> error + string list" where
  "sorted_migrations found =
     (case mapM get_migration_index found of
        Inl e \<Rightarrow> Inl e
      | Inr keys \<Rightarrow> Inr (ordered_dict_keys (map snd (sort_key fst (zip keys found)))))"

definition Executor_init ::
  "(string \<rightharpoonup> string list) \<Rightarrow> (string \<Rightarrow> AddBenchParam list) \<Rightarrow> string list \<Rightarrow>
   string option \<Rightarrow> error + executor" where
  "Executor_init catalog modules found tgt =
     (case sorted_migrations found of
        Inl e \<Rightarrow> Inl e
      | Inr all \<Rightarrow>
          if all = [] then Inl NoMigrationFilesFound
          else
            (case (case tgt of
                     None \<Rightarrow> Inr (last all)
                   | Some t \<Rightarrow> if t \<notin> set all then Inl (UnknownTarget t) else Inr t) of
               Inl e \<Rightarrow> Inl e
             | Inr t \<Rightarrow>
                 (case check_indexes all Map.empty 0 of
                    Inl e \<Rightarrow> Inl e
                  | Inr _ \<Rightarrow>
                      Inr \<lparr>all_migrations = all, target = t,
                           all_benchmarks_data = catalog,
                           migration_operations = modules\<rparr>)))"

definition all_migrations_indexes :: "executor \<Rightarrow> error + int list" where
  "all_migrations_indexes ex = mapM get_migration_index (all_migrations ex)"

definition get_file_migration_index :: "file_contents \<Rightarrow> error + int" where
  "get_file_migration_index data =
     get_migration_index
       (case migration_version data of None \<Rightarrow> NO_MIGRATION_INDEX | Some m \<Rightarrow> m)"

text \<open>The selection loop of \<open>get_pending_migrations_names\<close>.\<close>

fun select_pending :: "int \<Rightarrow> int \<Rightarrow> string list \<Rightarrow> error + string list" where
  "select_pending target_index file_migration_idx [] = Inr []"
| "select_pending target_index file_migration_idx (migration # rest) =
     (case get_migration_index migration of
        Inl e \<Rightarrow> Inl e
      | Inr index \<Rightarrow>
          (case select_pending target_index file_migration_idx rest of
             Inl e \<Rightarrow> Inl e
           | Inr pending \<Rightarrow>
               Inr (if target_index \<ge> index \<and> index > file_migration_idx
                    then migration # pending else pending)))"

definition get_pending_migrations_names :: "executor \<Rightarrow> file_contents \<Rightarrow> error + string list" where
  "get_pending_migrations_names ex file_contents =
     (case get_file_migration_index file_contents of
        Inl e \<Rightarrow> Inl e
      | Inr file_migration_idx \<Rightarrow>
          if file_migration_idx = 0 then Inl NotReadyForMigrationsError
          else
            (case all_migrations_indexes ex of
               Inl e \<Rightarrow> Inl e
             | Inr indexes \<Rightarrow>
                 if file_migration_idx \<notin> set indexes
                 then Inl (MigrationDoesNotExist file_migration_idx)
                 else
                   (case get_migration_index (target ex) of
                      Inl e \<Rightarrow> Inl e
                    | Inr target_index \<Rightarrow>
                        select_pending target_index file_migration_idx (all_migrations ex))))"


text \<open>
  What the specification calls pending: a registered name whose index lies strictly above
  the file's index and at most at the target's.
\<close>

definition index_between :: "int \<Rightarrow> int \<Rightarrow> string \<Rightarrow> bool" where
  "index_between lo hi migration =
     (case get_migration_index migration of Inl _ \<Rightarrow> False | Inr i \<Rightarrow> lo < i \<and> i \<le> hi)"

section \<open>AddBenchParam\<close>

text \<open>\<open>d.setdefault(k, v)\<close> and \<open>xs.insert(i, x)\<close> (for an index that is not negative).\<close>

definition setdefault :: "'k \<Rightarrow> 'v \<Rightarrow> ('k \<times> 'v) list \<Rightarrow> ('k \<times> 'v) list" where
  "setdefault k v d = (case map_of d k of None \<Rightarrow> d @ [(k, v)] | Some _ \<Rightarrow> d)"

definition list_insert :: "nat \<Rightarrow> 'a \<Rightarrow> 'a list \<Rightarrow> 'a list" where
  "list_insert i x xs = take i xs @ x # drop i xs"

text \<open>
  Modelled from the spec: \<open>_repr_no_address\<close> of \<open>asv.benchmark\<close> is not among the
  sources. It gives the representation of a value as text, Python's \<open>repr\<close> without
  memory addresses. A raw value is \<open>None\<close> for Python's \<open>None\<close>, whose representation is
  the text \<open>None\<close>, and \<open>Some v\<close> for any other object, whose representation is left to
  the parameter \<open>rep\<close>.
\<close>

definition repr_no_address :: "('v \<Rightarrow> string) \<Rightarrow> 'v option \<Rightarrow> string" where
  "repr_no_address rep obj = (case obj of None \<Rightarrow> ''None'' | Some v \<Rightarrow> rep v)"

text \<open>
  \<open>AddBenchParam.__init__\<close>. \<open>default\<close> is \<open>None\<close> when the argument is left out (or is
  Python's \<open>None\<close>); \<open>tgts\<close> is what the compiled \<open>targets\<close> matches.
\<close>

definition AddBenchParam_init ::
  "('v \<Rightarrow> string) \<Rightarrow> string \<Rightarrow> 'v option list \<Rightarrow> 'v option \<Rightarrow> (string \<Rightarrow> bool) \<Rightarrow>
   string option \<Rightarrow> string option \<Rightarrow> error + AddBenchParam" where
  "AddBenchParam_init rep nm vals dflt tgts aft bef =
     (if card (set vals) < length vals then Inl (UserError ValuesNotUnique)
      else if dflt \<noteq> None \<and> dflt \<notin> set vals then Inl (UserError WrongDefault)
      else Inr \<lparr>param_name = nm,
                param_values = map (repr_no_address rep) vals,
                param_default = repr_no_address rep dflt,
                targets = tgts,
                insert_after = aft,
                insert_before = bef\<rparr>)"


text \<open>
  The three loops of \<open>update_param_names\<close>, each over the entries from position \<open>index\<close>
  on; \<open>names\<close> is the whole list. Reaching the end of the list is the \<open>else\<close> of the
  \<open>for\<close>.
\<close>

fun insert_between_loop ::
  "string \<Rightarrow> string \<Rightarrow> string \<Rightarrow> string list \<Rightarrow> nat \<Rightarrow> string list \<Rightarrow> error + string list" where
  "insert_between_loop nm aft bef names index [] =
     Inl (UserError (InsertAfterNotFound nm aft))"
| "insert_between_loop nm aft bef names index (param # rest) =
     (if param = nm then Inr names
      else if param = aft then
        (if index + 1 < length names then
           (if names ! (index + 1) = bef then Inr (list_insert (index + 1) nm names)
            else Inl (UserError (NotAdjacent nm aft bef)))
         else Inl IndexError)
      else insert_between_loop nm aft bef names (index + 1) rest)"

fun insert_after_loop ::
  "string \<Rightarrow> string \<Rightarrow> string list \<Rightarrow> nat \<Rightarrow> string list \<Rightarrow> error + string list" where
  "insert_after_loop nm aft names index [] =
     Inl (UserError (InsertAfterNotFound nm aft))"
| "insert_after_loop nm aft names index (param # rest) =
     (if param = nm then Inr names
      else if param = aft then Inr (list_insert (index + 1) nm names)
      else insert_after_loop nm aft names (index + 1) rest)"

fun insert_before_loop ::
  "string \<Rightarrow> string \<Rightarrow> string list \<Rightarrow> nat \<Rightarrow> string list \<Rightarrow> error + string list" where
  "insert_before_loop nm bef names index [] =
     Inl (UserError (InsertBeforeNotFound nm bef))"
| "insert_before_loop nm bef names index (param # rest) =
     (if param = nm then Inr names
      else if param = bef then Inr (list_insert index nm names)
      else insert_before_loop nm bef names (index + 1) rest)"

text \<open>
  A neighbour counts as given when it is neither \<open>None\<close> nor the empty string (Python's
  truth value of the attribute).
\<close>

definition given :: "string option \<Rightarrow> string option" where
  "given x = (case x of None \<Rightarrow> None | Some s \<Rightarrow> if s = [] then None else Some s)"

definition update_param_names :: "AddBenchParam \<Rightarrow> string list \<Rightarrow> error + string list" where
  "update_param_names oper names =
     (case (given (insert_after oper), given (insert_before oper)) of
        (None, None) \<Rightarrow>
          if param_name oper \<notin> set names
          then Inr (names @ [param_name oper])
          else Inr names
      | (Some aft, Some bef) \<Rightarrow>
          insert_between_loop (param_name oper) aft bef names 0 names
      | (Some aft, None) \<Rightarrow>
          insert_after_loop (param_name oper) aft names 0 names
      | (None, Some bef) \<Rightarrow>
          insert_before_loop (param_name oper) bef names 0 names)"

definition useless_columns :: "string list" where
  "useless_columns =
     [''stats_ci_99_a'', ''stats_ci_99_b'', ''stats_q_25'', ''stats_q_75'',
      ''stats_number'', ''stats_repeat'', ''samples'', ''profile'']"

text \<open>
  The body of the two inner loops of \<open>forwards\<close>: the record made from \<open>result\<close> for the
  candidate \<open>v\<close>. A record without \<open>params\<close> raises \<open>KeyError\<close>; \<open>params\<close> that is not a
  dictionary has no \<open>setdefault\<close> and takes no string key.
\<close>

definition new_result :: "AddBenchParam \<Rightarrow> pydict \<Rightarrow> string \<Rightarrow> error + pydict" where
  "new_result oper result v =
     (case map_of result ''params'' of
        None \<Rightarrow> Inl (KeyError ''params'')
      | Some (JDict bench_params) \<Rightarrow>
          if v = param_default oper then
            Inr (AList.update ''version'' JNull
                  (AList.update ''params''
                     (JDict (setdefault (param_name oper) (JStr (param_default oper)) bench_params))
                     result))
          else
            Inr (AList.update ''version'' JNull
                  (fold AList.delete useless_columns
                     (AList.update ''result'' JNull
                        (AList.update ''params''
                           (JDict (AList.update (param_name oper) (JStr v) bench_params))
                           result))))
      | Some _ \<Rightarrow> Inl TypeError)"







section \<open>The converters\<close>

text \<open>
  \<open>OrderedDict(pairs)\<close>; what iterating over a value yields (a list its elements, a
  string its characters, a dictionary its keys; \<open>None\<close> and numbers raise \<open>TypeError\<close>, as
  \<open>len\<close> does on them); and whether a value can be the key of a dictionary.
\<close>

definition ordered_dict :: "('k \<times> 'v) list \<Rightarrow> ('k \<times> 'v) list" where
  "ordered_dict pairs = foldl (\<lambda>d (k, v). AList.update k v d) [] pairs"

fun py_iter :: "json \<Rightarrow> error + json list" where
  "py_iter (JList xs) = Inr xs"
| "py_iter (JStr s) = Inr (map (\<lambda>c. JStr [c]) s)"
| "py_iter (JDict d) = Inr (map (\<lambda>(k, v). JStr k) d)"
| "py_iter JNull = Inl TypeError"
| "py_iter (JNum n) = Inl TypeError"

fun hashable :: "json \<Rightarrow> bool" where
  "hashable (JList xs) = False"
| "hashable (JDict d) = False"
| "hashable v = True"

subsection \<open>Column form to object form\<close>

text \<open>
  The record of the combination \<open>combo\<close>, the one at position \<open>index\<close> of the cartesian
  product: the loop over \<open>result_columns\<close> that fills \<open>new_result\<close>.
\<close>

definition build_record :: "string list \<Rightarrow> pydict \<Rightarrow> nat \<Rightarrow> pydict \<Rightarrow> pydict" where
  "build_record columns results_as_object index combo =
     foldl
       (\<lambda>new field.
          if field = ''params'' then new
          else
            (case map_of results_as_object field of
               None \<Rightarrow> new
             | Some (JList corresponding_values) \<Rightarrow>
                 AList.update field
                   (if index < length corresponding_values then corresponding_values ! index
                    else JNull) new
             | Some corresponding_values \<Rightarrow> AList.update field corresponding_values new))
       [(''params'', JDict combo)] columns"

text \<open>
  The body of the loop of \<open>to_octobus_results\<close> for one benchmark of the catalog: the
  records made from its \<open>result_lines\<close>. \<open>product_lists\<close> enumerates the cartesian
  product as \<open>itertools.product\<close> does, the last list varying fastest. An entry of the
  catalog is taken to hold its \<open>param_names\<close>.
\<close>

definition bench_records :: "string list \<Rightarrow> string list \<Rightarrow> json list \<Rightarrow> error + pydict list" where
  "bench_records param_names columns result_lines =
     (if length columns < length result_lines then Inl AssertionError
      else
        let results_as_object = ordered_dict (zip columns result_lines) in
        (case map_of results_as_object ''params'' of
           None \<Rightarrow> Inl (KeyError ''params'')
         | Some params_column \<Rightarrow>
             (case py_iter params_column of
                Inl e \<Rightarrow> Inl e
              | Inr dims \<Rightarrow>
                  if length param_names < length dims then Inl AssertionError
                  else
                    let params = ordered_dict (zip param_names dims) in
                    (case mapM py_iter (map snd params) of
                       Inl e \<Rightarrow> Inl e
                     | Inr candidates \<Rightarrow>
                         let explosion =
                               map (\<lambda>x. ordered_dict (zip (map fst params) x))
                                 (product_lists candidates)
                         in Inr (map (\<lambda>(index, combo).
                                        build_record columns results_as_object index combo)
                                   (enumerate 0 explosion))))))"

text \<open>\<open>d[k].append(v)\<close> on a \<open>defaultdict(list)\<close>.\<close>

definition dict_append :: "'k \<Rightarrow> 'v \<Rightarrow> ('k \<times> 'v list) list \<Rightarrow> ('k \<times> 'v list) list" where
  "dict_append k v d =
     (case map_of d k of None \<Rightarrow> d @ [(k, [v])] | Some vs \<Rightarrow> AList.update k (vs @ [v]) d)"

fun to_octobus_loop ::
  "(string \<rightharpoonup> string list) \<Rightarrow> string list option \<Rightarrow> (string \<times> json list) list \<Rightarrow>
   (string \<times> string list) list \<Rightarrow> (string \<times> pydict list) list \<Rightarrow>
   error + (string \<times> string list) list \<times> (string \<times> pydict list) list" where
  "to_octobus_loop catalog columns [] param_names octobus = Inr (param_names, octobus)"
| "to_octobus_loop catalog columns ((bench_name, result_lines) # rest) param_names octobus =
     (case catalog bench_name of
        None \<Rightarrow> to_octobus_loop catalog columns rest param_names octobus
      | Some names \<Rightarrow>
          (case columns of
             None \<Rightarrow> Inl (KeyError ''result_columns'')
           | Some cols \<Rightarrow>
               (case bench_records names cols result_lines of
                  Inl e \<Rightarrow> Inl e
                | Inr records \<Rightarrow>
                    to_octobus_loop catalog columns rest
                      (AList.update bench_name names param_names)
                      (foldl (\<lambda>d r. dict_append bench_name r d) octobus records))))"

definition to_octobus_results ::
  "(string \<rightharpoonup> string list) \<Rightarrow> file_contents \<Rightarrow> error + file_contents" where
  "to_octobus_results catalog old_format_data =
     (let new = old_format_data\<lparr>octobus_results := Some []\<rparr> in
      case results old_format_data of
        None \<Rightarrow> Inr new
      | Some res \<Rightarrow>
          (case to_octobus_loop catalog (result_columns old_format_data) res [] [] of
             Inl e \<Rightarrow> Inl e
           | Inr (param_names, octobus) \<Rightarrow>
               Inr (new\<lparr>bench_param_names := Some param_names,
                        octobus_results := Some octobus\<rparr>)))"

subsection \<open>Object form to column form\<close>

definition SCALAR_COLUMNS :: "string list" where
  "SCALAR_COLUMNS = [''version'', ''started_at'', ''duration'']"

text \<open>
  The loop over the parameter names of the benchmark, for one record. \<open>asv_params\<close> maps
  a name to the values seen so far, in the order they were first seen (the keys of the
  inner ordered dictionary, to which \<open>ordered_set_add\<close> adds one).
\<close>

definition ordered_set_add :: "'a list \<Rightarrow> 'a \<Rightarrow> 'a list" where
  "ordered_set_add seen v = (if v \<in> set seen then seen else seen @ [v])"

fun params_loop ::
  "pydict \<Rightarrow> string list \<Rightarrow> (string \<times> json list) list \<Rightarrow> error + (string \<times> json list) list" where
  "params_loop result [] asv_params = Inr asv_params"
| "params_loop result (name # names) asv_params =
     (let asv_params1 = setdefault name [] asv_params in
      case map_of result ''params'' of
        None \<Rightarrow> Inl (KeyError ''params'')
      | Some (JDict ps) \<Rightarrow>
          (case map_of ps name of
             None \<Rightarrow> Inl (KeyError name)
           | Some param_value \<Rightarrow>
               if \<not> hashable param_value then Inl TypeError
               else
                 let seen = (case map_of asv_params1 name of Some vs \<Rightarrow> vs | None \<Rightarrow> []) in
                 params_loop result names
                   (AList.update name (ordered_set_add seen param_value) asv_params1))
      | Some _ \<Rightarrow> Inl TypeError)"

text \<open>
  The loop over \<open>result_columns\<close> for one record; \<open>names\<close> is the entry of the benchmark
  in \<open>bench_param_names\<close>, looked up (and missed, with \<open>KeyError\<close>) only when the
  \<open>params\<close> column is reached. A \<open>break\<close> returns the state as it is.
\<close>

fun columns_loop ::
  "string \<Rightarrow> string list option \<Rightarrow> pydict \<Rightarrow> string list \<Rightarrow>
   pydict \<times> (string \<times> json list) list \<Rightarrow> error + pydict \<times> (string \<times> json list) list" where
  "columns_loop benchmark names result [] (asv_results, asv_params) =
     Inr (asv_results, asv_params)"
| "columns_loop benchmark names result (column # columns) (asv_results, asv_params) =
     (case (if column = ''params'' then
              (case names of
                 None \<Rightarrow> Inl (KeyError benchmark)
               | Some ns \<Rightarrow> params_loop result ns asv_params)
            else Inr asv_params) of
        Inl e \<Rightarrow> Inl e
      | Inr asv_params1 \<Rightarrow>
          if column \<in> set SCALAR_COLUMNS then
            columns_loop benchmark names result columns
              (AList.update column
                 (case map_of result column of None \<Rightarrow> JNull | Some v \<Rightarrow> v) asv_results,
               asv_params1)
          else
            (case map_of result column of
               None \<Rightarrow> Inr (asv_results, asv_params1)
             | Some corresponding_value \<Rightarrow>
                 (case map_of (setdefault column (JList []) asv_results) column of
                    Some (JList vs) \<Rightarrow>
                      columns_loop benchmark names result columns
                        (AList.update column (JList (vs @ [corresponding_value]))
                           (setdefault column (JList []) asv_results),
                         asv_params1)
                  | _ \<Rightarrow> Inl TypeError)))"

fun records_loop ::
  "string \<Rightarrow> string list option \<Rightarrow> string list \<Rightarrow> pydict list \<Rightarrow>
   pydict \<times> (string \<times> json list) list \<Rightarrow> error + pydict \<times> (string \<times> json list) list" where
  "records_loop benchmark names columns [] state = Inr state"
| "records_loop benchmark names columns (result # rest) state =
     (case columns_loop benchmark names result columns state of
        Inl e \<Rightarrow> Inl e
      | Inr state1 \<Rightarrow> records_loop benchmark names columns rest state1)"

text \<open>
  The body of the loop over \<open>octobus_results\<close> for one benchmark: \<open>asv_results\<close> once
  its \<open>params\<close> entry is set, and the list of its values, which is what is stored.
\<close>

definition bench_asv_results ::
  "string \<Rightarrow> string list option \<Rightarrow> string list \<Rightarrow> pydict list \<Rightarrow> error + pydict" where
  "bench_asv_results benchmark names columns records =
     (case records_loop benchmark names columns records ([], []) of
        Inl e \<Rightarrow> Inl e
      | Inr (asv_results, asv_params) \<Rightarrow>
          Inr (AList.update ''params'' (JList (map (\<lambda>(name, vs). JList vs) asv_params))
                 asv_results))"

definition bench_columns ::
  "string \<Rightarrow> string list option \<Rightarrow> string list \<Rightarrow> pydict list \<Rightarrow> error + json list" where
  "bench_columns benchmark names columns records =
     (case bench_asv_results benchmark names columns records of
        Inl e \<Rightarrow> Inl e
      | Inr asv_results \<Rightarrow> Inr (map snd asv_results))"

text \<open>\<open>result.get(column)\<close>, with null for \<open>None\<close>.\<close>

definition scalar_value :: "pydict \<Rightarrow> string \<Rightarrow> json" where
  "scalar_value result column = (case map_of result column of None \<Rightarrow> JNull | Some v \<Rightarrow> v)"

fun to_asv_loop ::
  "(string \<times> string list) list \<Rightarrow> string list \<Rightarrow> (string \<times> pydict list) list \<Rightarrow>
   (string \<times> json list) list \<Rightarrow> error + (string \<times> json list) list" where
  "to_asv_loop param_names columns [] out = Inr out"
| "to_asv_loop param_names columns ((benchmark, records) # rest) out =
     (case bench_columns benchmark (map_of param_names benchmark) columns records of
        Inl e \<Rightarrow> Inl e
      | Inr lines \<Rightarrow> to_asv_loop param_names columns rest (AList.update benchmark lines out))"

definition octobus_results_to_asv_results :: "file_contents \<Rightarrow> error + file_contents" where
  "octobus_results_to_asv_results data =
     (case octobus_results data of
        None \<Rightarrow> Inl (UserError EmptyOctobusResults)
      | Some octobus \<Rightarrow>
          if octobus = [] then Inl (UserError EmptyOctobusResults)
          else
            (case result_columns data of
               None \<Rightarrow> Inl (KeyError ''result_columns'')
             | Some columns \<Rightarrow>
                 (case bench_param_names data of
                    None \<Rightarrow> Inl (KeyError ''bench_param_names'')
                  | Some param_names \<Rightarrow>
                      (case to_asv_loop param_names columns octobus [] of
                         Inl e \<Rightarrow> Inl e
                       | Inr res \<Rightarrow> Inr (data\<lparr>results := Some res\<rparr>)))))"

subsection \<open>Column-form files made by a full cartesian expansion\<close>

text \<open>
  The column form of the specification's data model, for one benchmark with the
  parameter names \<open>names\<close>: the lines are the values of the first declared columns; the
  \<open>params\<close> line holds one list of distinct values for each parameter
  name, none of them empty; a scalar column holds a value that is not a list, and any
  other column a list with one entry for each combination of parameter values.
\<close>

definition dimension_ok :: "json \<Rightarrow> bool" where
  "dimension_ok d =
     (case d of JList vs \<Rightarrow> vs \<noteq> [] \<and> distinct vs \<and> list_all hashable vs | _ \<Rightarrow> False)"

definition dimension_size :: "json \<Rightarrow> nat" where
  "dimension_size d = (case d of JList vs \<Rightarrow> length vs | _ \<Rightarrow> 0)"

definition column_ok :: "nat \<Rightarrow> string \<times> json \<Rightarrow> bool" where
  "column_ok n cv =
     (if fst cv = ''params'' then True
      else if fst cv \<in> set SCALAR_COLUMNS then (case snd cv of JList vs \<Rightarrow> False | _ \<Rightarrow> True)
      else (case snd cv of JList vs \<Rightarrow> length vs = n | _ \<Rightarrow> False))"

definition cartesian_lines :: "string list \<Rightarrow> string list \<Rightarrow> json list \<Rightarrow> bool" where
  "cartesian_lines names columns result_lines \<longleftrightarrow>
     distinct names \<and> length result_lines \<le> length columns \<and>
     (case map_of (zip columns result_lines) ''params'' of
        Some (JList dims) \<Rightarrow>
          length dims = length names \<and> list_all dimension_ok dims \<and>
          list_all (column_ok (prod_list (map dimension_size dims))) (zip columns result_lines)
      | _ \<Rightarrow> False)"

text \<open>
  A file in column form: \<open>results\<close> is a dictionary of benchmarks of the catalog, each in
  the form above for the declared columns, which are distinct.
\<close>

definition cartesian_column_form :: "(string \<rightharpoonup> string list) \<Rightarrow> file_contents \<Rightarrow> bool" where
  "cartesian_column_form catalog x \<longleftrightarrow>
     (case results x of
        None \<Rightarrow> False
      | Some res \<Rightarrow>
          (case result_columns x of
             None \<Rightarrow> False
           | Some columns \<Rightarrow>
               distinct (map fst res) \<and> distinct columns \<and>
               list_all
                 (\<lambda>entry. case catalog (fst entry) of
                             None \<Rightarrow> False
                           | Some names \<Rightarrow> cartesian_lines names columns (snd entry))
                 res))"

text \<open>
  The lines of every benchmark stop at the end of the declared columns or before a column
  that is not a scalar one, and there is at least one benchmark.
\<close>

definition cut_at_vector :: "string list \<Rightarrow> json list \<Rightarrow> bool" where
  "cut_at_vector columns result_lines \<longleftrightarrow>
     (if length result_lines < length columns
      then columns ! length result_lines \<notin> set SCALAR_COLUMNS else True)"

definition lines_cut_at_vector :: "file_contents \<Rightarrow> bool" where
  "lines_cut_at_vector x \<longleftrightarrow>
     (case results x of
        None \<Rightarrow> False
      | Some res \<Rightarrow>
          (case result_columns x of
             None \<Rightarrow> False
           | Some columns \<Rightarrow> res \<noteq> [] \<and> list_all (\<lambda>entry. cut_at_vector columns (snd entry)) res))"

subsection \<open>Notions used to relate the two converters\<close>

text \<open>
  The values of a parameter line; the value that \<open>to_octobus_results\<close> gives the record
  of the combination at position \<open>i\<close> for the column \<open>c\<close> (the entry at \<open>i\<close> of a list,
  null past its end, and any other value as it is); and what it means for the records made
  of one benchmark to convert back to its lines.
\<close>

definition dimension_values :: "json \<Rightarrow> json list" where
  "dimension_values d = (case d of JList vs \<Rightarrow> vs | _ \<Rightarrow> [])"


definition field_value :: "pydict \<Rightarrow> nat \<Rightarrow> string \<Rightarrow> json" where
  "field_value rao i c =
     (case map_of rao c of
        Some (JList vs) \<Rightarrow> if i < length vs then vs ! i else JNull
      | Some v \<Rightarrow> v
      | None \<Rightarrow> JNull)"


definition entry_roundtrip ::
  "(string \<rightharpoonup> string list) \<Rightarrow> string list \<Rightarrow> string \<times> json list \<Rightarrow> string \<times> pydict list \<Rightarrow> bool" where
  "entry_roundtrip catalog cols entry made \<longleftrightarrow>
     fst made = fst entry \<and> catalog (fst entry) \<noteq> None \<and>
     bench_columns (fst entry) (catalog (fst entry)) cols (snd made) = Inr (snd entry)"

section \<open>Migrations and migrate_file\<close>






section \<open>Fixtures of the test suite\<close>

text \<open>The migration folders and files that \<open>test_migrations.py\<close> sets up.\<close>

definition basic_migrations :: "string list" where
  "basic_migrations = [''0001_initial'', ''0002_whatever'', ''0003_whatever'']"

definition conflicting_migrations :: "string list" where
  "conflicting_migrations = [''0001_initial'', ''0002_whatever'', ''0002_conflict'']"

definition no_catalog :: "string \<rightharpoonup> string list" where
  "no_catalog = Map.empty"

definition all_targets :: "string \<Rightarrow> bool" where
  "all_targets = (\<lambda>_. True)"

definition no_operations :: "string \<Rightarrow> AddBenchParam list" where
  "no_operations = (\<lambda>_. [])"

definition marked_file :: "string \<Rightarrow> file_contents" where
  "marked_file m =
     \<lparr>migration_version = Some m, result_columns = None, results = None,
      octobus_results = None, bench_param_names = None, other_keys = []\<rparr>"

definition registry_executor :: "string list \<Rightarrow> string \<Rightarrow> executor" where
  "registry_executor names t =
     \<lparr>all_migrations = names, target = t, all_benchmarks_data = no_catalog,
      migration_operations = no_operations\<rparr>"

text \<open>An operation as the tests construct it, matching every benchmark.\<close>

definition add_param ::
  "string \<Rightarrow> string list \<Rightarrow> string \<Rightarrow> string option \<Rightarrow> string option \<Rightarrow> AddBenchParam" where
  "add_param nm vals dflt aft bef =
     \<lparr>param_name = nm, param_values = vals, param_default = dflt, targets = all_targets,
      insert_after = aft, insert_before = bef\<rparr>"







text \<open>Two records of one benchmark that carry different versions.\<close>

definition versions_records :: "pydict list" where
  "versions_records =
     [[(''result'', JNum 1), (''params'', JDict [(''p'', JStr ''1'')]),
       (''version'', JStr ''first'')],
      [(''result'', JNum 2), (''params'', JDict [(''p'', JStr ''2'')]),
       (''version'', JStr ''second'')]]"

definition versions_state :: file_contents where
  "versions_state =
     \<lparr>migration_version = Some ''0001_initial'',
      result_columns = Some [''result'', ''params'', ''version''],
      results = None,
      octobus_results = Some [(''bench'', versions_records)],
      bench_param_names = Some [(''bench'', [''p''])],
      other_keys = []\<rparr>"

text \<open>
  The file of the test that starts from a file without marker: its lines stop before the
  \<open>version\<close> column. \<open>initial_object\<close> is its object form.
\<close>

definition initial_catalog :: "string \<rightharpoonup> string list" where
  "initial_catalog = [''bench_whatever'' \<mapsto> [''wew'']]"

definition initial_contents :: file_contents where
  "initial_contents =
     \<lparr>migration_version = None,
      result_columns = Some [''result'', ''params'', ''version''],
      results = Some
        [(''bench_whatever'',
          [JList [JNum 1, JNum 2, JNum 3],
           JList [JList [JStr ''lad'', JStr ''m8'', JStr ''thing'']]])],
      octobus_results = None, bench_param_names = None, other_keys = []\<rparr>"

definition initial_object :: file_contents where
  "initial_object =
     initial_contents
       \<lparr>octobus_results := Some
          [(''bench_whatever'',
            [[(''params'', JDict [(''wew'', JStr ''lad'')]), (''result'', JNum 1)],
             [(''params'', JDict [(''wew'', JStr ''m8'')]), (''result'', JNum 2)],
             [(''params'', JDict [(''wew'', JStr ''thing'')]), (''result'', JNum 3)]])],
        bench_param_names := Some [(''bench_whatever'', [''wew''])]\<rparr>"

text \<open>
  A file after the one of the reciprocity test (with three of its parameters): every
  declared column up to the statistics is there, the lines stop before \<open>samples\<close>.
\<close>

definition reciprocity_catalog :: "string \<rightharpoonup> string list" where
  "reciprocity_catalog = [''time_bench'' \<mapsto> [''repo'', ''compression'', ''max_worker_count'']]"

definition reciprocity_contents :: file_contents where
  "reciprocity_contents =
     \<lparr>migration_version = None,
      result_columns = Some
        [''result'', ''params'', ''version'', ''started_at'', ''duration'',
         ''stats_ci_99_a'', ''stats_ci_99_b'', ''samples'', ''profile''],
      results = Some
        [(''time_bench'',
          [JList [JNum 1, JNull, JNum 10, JNull],
           JList [JList [JStr ''mercurial''], JList [JStr ''zlib'', JStr ''zstd''],
                  JList [JStr ''1'', JStr ''2'']],
           JStr ''version'', JNum 2, JNum 3,
           JList [JNum 4, JNull, JNum 40, JNull],
           JList [JNum 5, JNull, JNum 50, JNull]])],
      octobus_results = None, bench_param_names = None, other_keys = []\<rparr>"

section \<open>Properties of the registry\<close>

lemma check_indexes_ok:
  "check_indexes names seen k = Inr () \<Longrightarrow>
   mapM get_migration_index names = Inr [k + 1 .. k + int (length names)]"
proof (induction names arbitrary: seen k)
  case Nil
  then show ?case by simp
next
  case (Cons n names)
  from Cons.prems obtain i where i: "get_migration_index n = Inr i" "k = i - 1"
    and rest: "check_indexes names (seen(i \<mapsto> n)) i = Inr ()"
    by (auto split: sum.splits option.splits if_splits)
  have "mapM get_migration_index names = Inr [i + 1 .. i + int (length names)]"
    using Cons.IH [OF rest] .
  moreover have "[k + 1 .. k + int (length (n # names))] = i # [i + 1 .. i + int (length names)]"
  proof -
    have e1: "k + 1 = i" and e2: "k + int (length (n # names)) = i + int (length names)"
      using i(2) by simp_all
    show ?thesis unfolding e1 e2 by (simp add: upto_rec1)
  qed
  ultimately show ?case using i(1) by simp
qed

lemma filter_upto_range:
  "filter (\<lambda>j. lo < j \<and> j \<le> hi) [a..b] = [max a (lo + 1) .. min b hi]"
proof (induction a b rule: upto.induct)
  case (1 i j)
  show ?case
  proof (cases "i \<le> j")
    case False
    then show ?thesis by simp
  next
    case True
    note IH = 1 [OF True]
    have unf: "[i..j] = i # [i + 1..j]" using True by (simp add: upto_rec1)
    show ?thesis
    proof (cases "lo < i \<and> i \<le> hi")
      case True
      then have m: "max i (lo + 1) = i" "max (i + 1) (lo + 1) = i + 1" "i \<le> min j hi"
        using \<open>i \<le> j\<close> by auto
      have "[i .. min j hi] = i # [i + 1 .. min j hi]"
        using m(3) by (simp add: upto_rec1)
      then show ?thesis using True IH unf m by simp
    next
      case False
      then have "[max i (lo + 1) .. min j hi] = [max (i + 1) (lo + 1) .. min j hi]"
        by (auto simp: max_def min_def)
      then show ?thesis using False IH unf by auto
    qed
  qed
qed

lemma digits_value_error: "digits_value a cs = Inl e \<Longrightarrow> e = ValueError"
  by (induction cs arbitrary: a) (auto split: option.splits)

lemma get_migration_index_error: "get_migration_index n = Inl e \<Longrightarrow> e = ValueError"
  by (auto simp: get_migration_index_def py_int_def simp del: digits_value.simps
      split: list.splits if_splits sum.splits dest: digits_value_error)

lemma mapM_Inr_length: "mapM f xs = Inr ys \<Longrightarrow> length ys = length xs"
  by (induction xs arbitrary: ys) (auto split: sum.splits)

lemma mapM_Inr_nth: "mapM f xs = Inr ys \<Longrightarrow> i < length xs \<Longrightarrow> f (xs ! i) = Inr (ys ! i)"
proof (induction xs arbitrary: ys i)
  case Nil then show ?case by simp
next
  case (Cons x xs)
  then show ?case by (cases i) (auto split: sum.splits)
qed

lemma mapM_Inr_map: "mapM f xs = Inr ys \<Longrightarrow> map f xs = map Inr ys"
  by (induction xs arbitrary: ys) (auto split: sum.splits)

lemma select_pending_filter:
  "mapM get_migration_index names = Inr is \<Longrightarrow>
   select_pending t f names = Inr (filter (index_between f t) names)"
  by (induction names arbitrary: "is") (auto split: sum.splits simp: index_between_def)

lemma mapM_filter_index:
  "mapM get_migration_index names = Inr is \<Longrightarrow>
   mapM get_migration_index (filter (index_between f t) names) = Inr (filter (\<lambda>j. f < j \<and> j \<le> t) is)"
  by (induction names arbitrary: "is") (auto split: sum.splits simp: index_between_def)

lemma Executor_init_Inr:
  assumes "Executor_init catalog modules found tgt = Inr ex"
  shows "all_migrations ex \<noteq> []" "target ex \<in> set (all_migrations ex)"
    "check_indexes (all_migrations ex) Map.empty 0 = Inr ()"
    "sorted_migrations found = Inr (all_migrations ex)"
  using assms
  by (auto simp: Executor_init_def Let_def split: sum.splits if_splits option.splits)

lemma Executor_init_indexes:
  assumes "Executor_init catalog modules found tgt = Inr ex"
  shows "all_migrations_indexes ex = Inr [1 .. int (length (all_migrations ex))]"
  using check_indexes_ok [OF Executor_init_Inr(3) [OF assms]]
  by (simp add: all_migrations_indexes_def)

lemma mapM_Inr_mem:
  "mapM f xs = Inr ys \<Longrightarrow> x \<in> set xs \<Longrightarrow> \<exists>y \<in> set ys. f x = Inr y"
  by (induction xs arbitrary: ys) (auto split: sum.splits)


lemma check_indexes_prefix:
  assumes "mapM get_migration_index pre = Inr [k + 1 .. k + int (length pre)]"
    and "\<forall>j>k. seen j = None"
  shows "check_indexes (pre @ names) seen k =
         check_indexes names
           (\<lambda>j. if k < j \<and> j \<le> k + int (length pre) then Some (pre ! nat (j - k - 1)) else seen j)
           (k + int (length pre))"
  using assms
proof (induction pre arbitrary: seen k)
  case Nil
  have "(\<lambda>j. if k < j \<and> j \<le> k + int (length ([]::string list)) then Some ([] ! nat (j - k - 1)) else seen j) = seen"
    by (rule ext) auto
  then show ?case by simp
next
  case (Cons p ps)
  have unf: "[k + 1 .. k + int (length (p # ps))] = (k + 1) # [k + 1 + 1 .. k + 1 + int (length ps)]"
    by (subst upto_rec1) (simp_all add: algebra_simps)
  from Cons.prems(1) have p: "get_migration_index p = Inr (k + 1)"
    and ps: "mapM get_migration_index ps = Inr [k + 1 + 1 .. k + 1 + int (length ps)]"
    unfolding unf by (auto split: sum.splits)
  have none: "seen (k + 1) = None" using Cons.prems(2) by simp
  have seen': "\<forall>j>k + 1. (seen(k + 1 \<mapsto> p)) j = None" using Cons.prems(2) by simp
  have step: "check_indexes ((p # ps) @ names) seen k = check_indexes (ps @ names) (seen(k + 1 \<mapsto> p)) (k + 1)"
    using p none by simp
  have fn: "(\<lambda>j. if k + 1 < j \<and> j \<le> k + 1 + int (length ps) then Some (ps ! nat (j - (k + 1) - 1))
                 else (seen(k + 1 \<mapsto> p)) j)
          = (\<lambda>j. if k < j \<and> j \<le> k + int (length (p # ps)) then Some ((p # ps) ! nat (j - k - 1))
                 else seen j)"
  proof
    fix j
    show "(if k + 1 < j \<and> j \<le> k + 1 + int (length ps) then Some (ps ! nat (j - (k + 1) - 1))
                 else (seen(k + 1 \<mapsto> p)) j)
          = (if k < j \<and> j \<le> k + int (length (p # ps)) then Some ((p # ps) ! nat (j - k - 1))
                 else seen j)"
    proof (cases "k + 1 < j")
      case True
      then have "nat (j - k - 1) = Suc (nat (j - (k + 1) - 1))" by simp
      then show ?thesis using True by auto
    next
      case False
      then show ?thesis by auto
    qed
  qed
  have len: "k + 1 + int (length ps) = k + int (length (p # ps))" by simp
  have "check_indexes (ps @ names) (seen(k + 1 \<mapsto> p)) (k + 1) =
        check_indexes names
          (\<lambda>j. if k < j \<and> j \<le> k + int (length (p # ps)) then Some ((p # ps) ! nat (j - k - 1))
                 else seen j) (k + 1 + int (length ps))"
    using Cons.IH [OF ps seen'] unfolding fn .
  then show ?case unfolding step len .
qed

lemma Executor_init_first_violation_aux:
  assumes sorted: "sorted_migrations found = Inr (pre @ name # rest)"
    and tgt: "case tgt of None \<Rightarrow> True | Some t \<Rightarrow> t \<in> set (pre @ name # rest)"
    and pre: "mapM get_migration_index pre = Inr [1 .. int (length pre)]"
    and name: "get_migration_index name = Inr index"
    and bad: "index \<noteq> int (length pre) + 1"
  shows "Executor_init catalog modules found tgt =
           Inl (UserError (if 1 \<le> index \<and> index \<le> int (length pre)
                           then ConflictingIndex (pre ! nat (index - 1)) name
                           else NonContiguousIndex (int (length pre)) index))"
proof -
  have "check_indexes (pre @ name # rest) Map.empty 0 =
        check_indexes (name # rest)
           (\<lambda>j. if 0 < j \<and> j \<le> 0 + int (length pre) then Some (pre ! nat (j - 0 - 1)) else None)
           (0 + int (length pre))"
    by (rule check_indexes_prefix) (use pre in simp_all)
  also have "\<dots> = Inl (UserError (if 1 \<le> index \<and> index \<le> int (length pre)
                           then ConflictingIndex (pre ! nat (index - 1)) name
                           else NonContiguousIndex (int (length pre)) index))"
    using name bad by auto
  finally show ?thesis
    using sorted tgt by (auto simp: Executor_init_def split: option.splits)
qed


lemma gmi_simps:
  "get_migration_index ''0001_initial'' = Inr 1"
  "get_migration_index ''0002_whatever'' = Inr 2"
  "get_migration_index ''0003_whatever'' = Inr 3"
  "get_migration_index ''0002_conflict'' = Inr 2"
  "get_migration_index ''0002_add'' = Inr 2"
  "get_migration_index ''0007_whatever'' = Inr 7"
  "get_migration_index ''0000'' = Inr 0"
  by (simp_all add: get_migration_index_def py_int_def strip_def is_space_def digit_of_def)

lemma basic_executor_init:
  "Executor_init no_catalog no_operations [''0003_whatever'', ''0001_initial'', ''0002_whatever''] None =
     Inr (registry_executor basic_migrations ''0003_whatever'')"
  by (simp add: Executor_init_def sorted_migrations_def gmi_simps ordered_dict_keys_def
      registry_executor_def basic_migrations_def)

lemma basic_executor_indexes:
  "all_migrations_indexes (registry_executor basic_migrations t) = Inr [1, 2, 3]"
  by (simp add: all_migrations_indexes_def registry_executor_def basic_migrations_def gmi_simps)

lemma marked_file_index:
  "get_file_migration_index (marked_file m) = get_migration_index m"
  by (simp add: get_file_migration_index_def marked_file_def)

text \<open>
  C3. For an executor that construction returned and a file whose marker index is one of
  the registry's: the pending names are exactly the registered names with an index above
  the file's and at most the target's, their indexes run upwards from the file's index
  plus one to the target's, and nothing is pending when the target's index is not above
  the file's.
\<close>

theorem pending_migrations_between:
  assumes init: "Executor_init catalog modules found tgt = Inr ex"
    and idx: "get_file_migration_index file_contents = Inr file_index"
    and known: "all_migrations_indexes ex = Inr indexes" "file_index \<in> set indexes"
  shows "\<exists>target_index pending.
           get_migration_index (target ex) = Inr target_index
         \<and> get_pending_migrations_names ex file_contents = Inr pending
         \<and> pending = filter (index_between file_index target_index) (all_migrations ex)
         \<and> mapM get_migration_index pending = Inr [file_index + 1 .. target_index]
         \<and> (target_index \<le> file_index \<longrightarrow> pending = [])"
proof -
  let ?all = "all_migrations ex"
  let ?N = "int (length ?all)"
  have ixs: "mapM get_migration_index ?all = Inr [1 .. ?N]"
    using Executor_init_indexes [OF init] by (simp add: all_migrations_indexes_def)
  then have indexes: "indexes = [1 .. ?N]"
    using known(1) by (simp add: all_migrations_indexes_def)
  have f: "1 \<le> file_index" "file_index \<le> ?N" using known(2) indexes by auto
  obtain t where t: "get_migration_index (target ex) = Inr t" "1 \<le> t" "t \<le> ?N"
    using mapM_Inr_mem [OF ixs Executor_init_Inr(2) [OF init]] by auto
  let ?pending = "filter (index_between file_index t) ?all"
  have sel: "select_pending t file_index ?all = Inr ?pending"
    by (rule select_pending_filter [OF ixs])
  have run: "get_pending_migrations_names ex file_contents = Inr ?pending"
    using idx f t(1) sel known
    by (simp add: get_pending_migrations_names_def)
  have "mapM get_migration_index ?pending = Inr (filter (\<lambda>j. file_index < j \<and> j \<le> t) [1 .. ?N])"
    by (rule mapM_filter_index [OF ixs])
  also have "filter (\<lambda>j. file_index < j \<and> j \<le> t) [1 .. ?N] = [file_index + 1 .. t]"
    using f t(2,3) by (simp add: filter_upto_range max_def min_def)
  finally have pix: "mapM get_migration_index ?pending = Inr [file_index + 1 .. t]" .
  have "?pending = []" if "t \<le> file_index"
  proof -
    have "length ?pending = length [file_index + 1 .. t]"
      using mapM_Inr_length [OF pix] by simp
    then show ?thesis using that by simp
  qed
  with t(1) run pix show ?thesis by blast
qed


theorem pending_migrations_between_witness:
  "Executor_init no_catalog no_operations [''0003_whatever'', ''0001_initial'', ''0002_whatever''] None =
     Inr (registry_executor basic_migrations ''0003_whatever'')
   \<and> get_file_migration_index (marked_file ''0001_initial'') = Inr 1
   \<and> all_migrations_indexes (registry_executor basic_migrations ''0003_whatever'') = Inr [1, 2, 3]
   \<and> get_pending_migrations_names (registry_executor basic_migrations ''0003_whatever'')
        (marked_file ''0001_initial'') = Inr [''0002_whatever'', ''0003_whatever'']"
proof -
  have idx: "get_file_migration_index (marked_file ''0001_initial'') = Inr 1"
    by (simp add: marked_file_index gmi_simps)
  have mem: "(1::int) \<in> set [1, 2, 3]" by simp
  obtain t pending where
    t: "get_migration_index (target (registry_executor basic_migrations ''0003_whatever'')) = Inr t"
    and run: "get_pending_migrations_names (registry_executor basic_migrations ''0003_whatever'')
               (marked_file ''0001_initial'') = Inr pending"
    and p: "pending = filter (index_between 1 t)
               (all_migrations (registry_executor basic_migrations ''0003_whatever''))"
    using pending_migrations_between [OF basic_executor_init idx basic_executor_indexes mem]
    by blast
  have "t = 3" using t by (simp add: registry_executor_def gmi_simps)
  then have "pending = [''0002_whatever'', ''0003_whatever'']"
    using p by (simp add: registry_executor_def basic_migrations_def index_between_def gmi_simps)
  then show ?thesis
    using run idx basic_executor_init basic_executor_indexes by simp
qed

text \<open>
  C9. When the file's marker has an index and the registry's names all have one,
  computing the pending names raises \<open>MigrationDoesNotExist\<close> exactly when that index is
  not 0 and is not an index of the registry; the error then carries the file's index.
\<close>

theorem migration_does_not_exist_iff:
  assumes idx: "get_file_migration_index file_contents = Inr file_index"
    and known: "all_migrations_indexes ex = Inr indexes"
  shows "((\<exists>i. get_pending_migrations_names ex file_contents = Inl (MigrationDoesNotExist i))
           \<longleftrightarrow> file_index \<noteq> 0 \<and> file_index \<notin> set indexes)
       \<and> (file_index \<noteq> 0 \<and> file_index \<notin> set indexes \<longrightarrow>
           get_pending_migrations_names ex file_contents = Inl (MigrationDoesNotExist file_index))"
proof -
  have sel: "select_pending t file_index (all_migrations ex) \<noteq> Inl (MigrationDoesNotExist i)" for t i
    using select_pending_filter [of "all_migrations ex" indexes t file_index] known
    by (simp add: all_migrations_indexes_def)
  have tg: "get_migration_index (target ex) \<noteq> Inl (MigrationDoesNotExist i)" for i
    using get_migration_index_error [of "target ex"] by auto
  have "(\<exists>i. get_pending_migrations_names ex file_contents = Inl (MigrationDoesNotExist i))
           \<longleftrightarrow> file_index \<noteq> 0 \<and> file_index \<notin> set indexes"
    using idx known sel tg
    by (auto simp: get_pending_migrations_names_def split: sum.splits)
  moreover have "file_index \<noteq> 0 \<and> file_index \<notin> set indexes \<longrightarrow>
           get_pending_migrations_names ex file_contents = Inl (MigrationDoesNotExist file_index)"
    using idx known by (simp add: get_pending_migrations_names_def)
  ultimately show ?thesis by blast
qed

theorem migration_does_not_exist_iff_witness:
  "get_file_migration_index (marked_file ''0007_whatever'') = Inr 7
   \<and> all_migrations_indexes (registry_executor basic_migrations ''0003_whatever'') = Inr [1, 2, 3]
   \<and> get_pending_migrations_names (registry_executor basic_migrations ''0003_whatever'')
        (marked_file ''0007_whatever'') = Inl (MigrationDoesNotExist 7)"
proof -
  have idx: "get_file_migration_index (marked_file ''0007_whatever'') = Inr 7"
    by (simp add: marked_file_index gmi_simps)
  show ?thesis
    using migration_does_not_exist_iff [OF idx basic_executor_indexes [of "''0003_whatever''"]]
      idx basic_executor_indexes [of "''0003_whatever''"]
    by simp
qed

text \<open>
  C8, as stated: two units that share an index always fail with the conflicting-index
  error. The two names below share the index 2, and construction fails with the
  non-contiguity error, raised for the first of them against the last index 0.
\<close>

theorem conflicting_index_counterexample:
  "get_migration_index ''0002_whatever'' = get_migration_index ''0002_conflict''
   \<and> Executor_init no_catalog no_operations [''0002_whatever'', ''0002_conflict''] None =
       Inl (UserError (NonContiguousIndex 0 2))"
  by (simp add: Executor_init_def sorted_migrations_def gmi_simps ordered_dict_keys_def)

text \<open>
  C8, amended. Construction returns an executor only when the indexes of the sorted names
  are exactly 1, 2, ..., N with N at least 1. No name at all fails with
  \<open>NoMigrationFilesFound\<close>. Otherwise, when the requested target (if any) is one of the
  names, construction fails at the first name, in sorted order, whose index is not the
  number of names before it plus one: with the conflicting-index error (naming the earlier
  holder of the index) when the index is one of those already seen, and with the
  non-contiguity error (naming the last index seen and the offending one) otherwise.
\<close>

theorem Executor_init_contiguous:
  "(Executor_init catalog modules found tgt = Inr ex \<longrightarrow>
      all_migrations ex \<noteq> [] \<and>
      all_migrations_indexes ex = Inr [1 .. int (length (all_migrations ex))])
   \<and> Executor_init catalog modules [] tgt = Inl NoMigrationFilesFound
   \<and> (sorted_migrations found' = Inr (pre @ name # rest) \<and>
      (case tgt' of None \<Rightarrow> True | Some t \<Rightarrow> t \<in> set (pre @ name # rest)) \<and>
      mapM get_migration_index pre = Inr [1 .. int (length pre)] \<and>
      get_migration_index name = Inr index \<and>
      index \<noteq> int (length pre) + 1 \<longrightarrow>
      Executor_init catalog modules found' tgt' =
        Inl (UserError (if 1 \<le> index \<and> index \<le> int (length pre)
                        then ConflictingIndex (pre ! nat (index - 1)) name
                        else NonContiguousIndex (int (length pre)) index)))"
proof (intro conjI impI)
  assume "Executor_init catalog modules found tgt = Inr ex"
  then show "all_migrations ex \<noteq> []"
    and "all_migrations_indexes ex = Inr [1 .. int (length (all_migrations ex))]"
    by (rule Executor_init_Inr(1), rule Executor_init_indexes)
next
  show "Executor_init catalog modules [] tgt = Inl NoMigrationFilesFound"
    by (simp add: Executor_init_def sorted_migrations_def ordered_dict_keys_def)
next
  assume "sorted_migrations found' = Inr (pre @ name # rest) \<and>
      (case tgt' of None \<Rightarrow> True | Some t \<Rightarrow> t \<in> set (pre @ name # rest)) \<and>
      mapM get_migration_index pre = Inr [1 .. int (length pre)] \<and>
      get_migration_index name = Inr index \<and>
      index \<noteq> int (length pre) + 1"
  then have "sorted_migrations found' = Inr (pre @ name # rest)"
    and "case tgt' of None \<Rightarrow> True | Some t \<Rightarrow> t \<in> set (pre @ name # rest)"
    and "mapM get_migration_index pre = Inr [1 .. int (length pre)]"
    and "get_migration_index name = Inr index"
    and "index \<noteq> int (length pre) + 1"
    by blast+
  then show "Executor_init catalog modules found' tgt' =
        Inl (UserError (if 1 \<le> index \<and> index \<le> int (length pre)
                        then ConflictingIndex (pre ! nat (index - 1)) name
                        else NonContiguousIndex (int (length pre)) index))"
    by (rule Executor_init_first_violation_aux)
qed

theorem Executor_init_contiguous_witness:
  "Executor_init no_catalog no_operations [''0003_whatever'', ''0001_initial'', ''0002_whatever''] None =
     Inr (registry_executor basic_migrations ''0003_whatever'')
   \<and> all_migrations_indexes (registry_executor basic_migrations ''0003_whatever'') = Inr [1, 2, 3]
   \<and> sorted_migrations [''0002_whatever'', ''0001_initial'', ''0002_conflict''] =
       Inr ([''0001_initial'', ''0002_whatever''] @ ''0002_conflict'' # [])
   \<and> mapM get_migration_index [''0001_initial'', ''0002_whatever''] = Inr [1, 2]
   \<and> get_migration_index ''0002_conflict'' = Inr 2
   \<and> Executor_init no_catalog no_operations [''0002_whatever'', ''0001_initial'', ''0002_conflict''] None =
       Inl (UserError (ConflictingIndex ''0002_whatever'' ''0002_conflict''))"
proof -
  have s: "sorted_migrations [''0002_whatever'', ''0001_initial'', ''0002_conflict''] =
       Inr ([''0001_initial'', ''0002_whatever''] @ ''0002_conflict'' # [])"
    by (simp add: sorted_migrations_def gmi_simps ordered_dict_keys_def)
  have u: "[1 .. int (length [''0001_initial'', ''0002_whatever''])] = [1, 2]"
    by (simp add: upto_rec1)
  have p: "mapM get_migration_index [''0001_initial'', ''0002_whatever''] = Inr [1, 2]"
    by (simp add: gmi_simps)
  have v: "[1 .. int (length (all_migrations (registry_executor basic_migrations ''0003_whatever'')))]
           = [1, 2, 3]"
    by (simp add: registry_executor_def basic_migrations_def upto_rec1)
  show ?thesis
    using Executor_init_contiguous [where catalog = no_catalog and modules = no_operations
        and found = "[''0003_whatever'', ''0001_initial'', ''0002_whatever'']" and tgt = None
        and ex = "registry_executor basic_migrations ''0003_whatever''"
        and found' = "[''0002_whatever'', ''0001_initial'', ''0002_conflict'']"
        and pre = "[''0001_initial'', ''0002_whatever'']" and name = "''0002_conflict''"
        and rest = "[]" and tgt' = None and index = 2]
      basic_executor_init s p u v
    by (simp add: gmi_simps)
qed

section \<open>Properties of AddBenchParam\<close>










text \<open>
  With both neighbours given and \<open>insert_after\<close> as the last entry of the list, the entry
  after it is read past the end of the list: the \<open>IndexError\<close> of the source.
\<close>

lemma update_param_names_past_the_end:
  "update_param_names (add_param ''b'' [''None''] ''None'' (Some ''a'') (Some ''d'')) [''c'', ''a'']
     = Inl IndexError"
  by (simp add: update_param_names_def add_param_def given_def)

text \<open>
  C7. The list below already contains the name \<open>b\<close>, after the entry \<open>a\<close> that
  \<open>insert_after\<close> names: the loop reaches \<open>a\<close> first and inserts \<open>b\<close> a second time.
\<close>

theorem update_param_names_inserts_again:
  "update_param_names (add_param ''b'' [''None''] ''None'' (Some ''a'') None) [''a'', ''b'']
     = Inr [''a'', ''b'', ''b'']"
  by (simp add: update_param_names_def add_param_def given_def list_insert_def)


lemma update_fresh: "map_of al k = None \<Longrightarrow> AList.update k v al = al @ [(k, v)]"
  by (induction al) (auto split: if_splits)















lemma repr_no_address_None: "repr_no_address rep None = ''None''"
  by (simp add: repr_no_address_def)

text \<open>
  C10. An operation constructed without a default stores the representation of \<open>None\<close>
  as its default. When \<open>None\<close> is one of its values, that same text is one of the stored
  candidates, and the record made for it from any record with a \<open>params\<close> dictionary is
  the default's: every field but \<open>params\<close> and \<open>version\<close> (the result and the
  statistics among them) is as in the original, \<open>version\<close> is null, and the parameter is
  set only if absent.
\<close>

theorem none_candidate_is_default:
  assumes init: "AddBenchParam_init rep nm vals None tgts aft bef = Inr oper"
    and cand: "None \<in> set vals"
    and params: "map_of result ''params'' = Some (JDict bench_params)"
  shows "param_default oper = ''None'' \<and> ''None'' \<in> set (param_values oper) \<and>
         (\<exists>r. new_result oper result ''None'' = Inr r \<and>
              map_of r ''version'' = Some JNull \<and>
              map_of r ''params'' =
                Some (JDict (setdefault nm (JStr ''None'') bench_params)) \<and>
              (\<forall>k. k \<noteq> ''params'' \<and> k \<noteq> ''version'' \<longrightarrow> map_of r k = map_of result k))"
proof -
  from init have oper: "oper = \<lparr>param_name = nm,
                param_values = map (repr_no_address rep) vals,
                param_default = repr_no_address rep None,
                targets = tgts, insert_after = aft, insert_before = bef\<rparr>"
    by (auto simp: AddBenchParam_init_def split: if_splits)
  have d: "param_default oper = ''None''" by (simp add: oper repr_no_address_None)
  have "repr_no_address rep None \<in> set (param_values oper)"
    using cand unfolding oper by (simp add: image_iff) blast
  then have v: "''None'' \<in> set (param_values oper)" by (simp add: repr_no_address_None)
  have n: "new_result oper result ''None'' =
        Inr (AList.update ''version'' JNull
                  (AList.update ''params''
                     (JDict (setdefault nm (JStr ''None'') bench_params)) result))"
    using params d by (simp add: new_result_def) (simp add: oper)
  show ?thesis using d v n by (simp add: update_conv')
qed

theorem none_candidate_is_default_witness:
  "AddBenchParam_init (\<lambda>s. s) ''benchparam2'' [None] None all_targets None None =
     Inr (add_param ''benchparam2'' [''None''] ''None'' None None)
   \<and> param_default (add_param ''benchparam2'' [''None''] ''None'' None None) = ''None''
   \<and> new_result (add_param ''benchparam2'' [''None''] ''None'' None None)
        [(''result'', JNum 1), (''params'', JDict []), (''samples'', JList [JNum 1, JNum 2])]
        ''None'' =
      Inr [(''result'', JNum 1), (''params'', JDict [(''benchparam2'', JStr ''None'')]),
           (''samples'', JList [JNum 1, JNum 2]), (''version'', JNull)]"
proof -
  have init: "AddBenchParam_init (\<lambda>s. s) ''benchparam2'' [None] None all_targets None None =
     Inr (add_param ''benchparam2'' [''None''] ''None'' None None)"
    by (simp add: AddBenchParam_init_def add_param_def repr_no_address_def)
  have mem: "None \<in> set [None :: string option]" by simp
  have p: "map_of [(''result'', JNum 1), (''params'', JDict []), (''samples'', JList [JNum 1, JNum 2])]
             ''params'' = Some (JDict [])"
    by simp
  have "new_result (add_param ''benchparam2'' [''None''] ''None'' None None)
        [(''result'', JNum 1), (''params'', JDict []), (''samples'', JList [JNum 1, JNum 2])]
        ''None'' =
      Inr [(''result'', JNum 1), (''params'', JDict [(''benchparam2'', JStr ''None'')]),
           (''samples'', JList [JNum 1, JNum 2]), (''version'', JNull)]"
    by (simp add: new_result_def add_param_def setdefault_def)
  then show ?thesis
    using none_candidate_is_default [OF init mem p] init by simp
qed

section \<open>Properties of the converters and of migrate_file\<close>

lemma records_loop_append:
  "records_loop b n cols (rs @ rs') st =
     (case records_loop b n cols rs st of Inl e \<Rightarrow> Inl e | Inr st1 \<Rightarrow> records_loop b n cols rs' st1)"
  by (induction rs arbitrary: st) (auto split: sum.splits)

lemma columns_loop_reaches:
  assumes "columns_loop b n r (pre @ rest) st = Inr st'"
    and "\<forall>c \<in> set pre. c \<in> set SCALAR_COLUMNS \<or> map_of r c \<noteq> None"
  shows "\<exists>st1. columns_loop b n r pre st = Inr st1 \<and> columns_loop b n r rest st1 = Inr st'"
  using assms
proof (induction pre arbitrary: st)
  case Nil
  then show ?case by (cases st) simp
next
  case (Cons c pre)
  obtain asv ap where st: "st = (asv, ap)" by (cases st)
  show ?case using Cons.prems Cons.IH unfolding st
    by (auto split: sum.splits option.splits json.splits if_splits)
qed

lemma columns_loop_keeps_scalar:
  assumes "columns_loop b n r cols (asv, ap) = Inr (asv', ap')"
    and "c \<in> set SCALAR_COLUMNS" "map_of asv c = Some (scalar_value r c)"
  shows "map_of asv' c = Some (scalar_value r c)"
  using assms
proof (induction cols arbitrary: asv ap)
  case Nil
  then show ?case by simp
next
  case (Cons col cols)
  show ?case
  proof (cases "col \<in> set SCALAR_COLUMNS")
    case True
    with Cons.prems(1) obtain ap1 where
      "columns_loop b n r cols (AList.update col (scalar_value r col) asv, ap1) = Inr (asv', ap')"
      by (auto simp: scalar_value_def split: sum.splits)
    moreover have "map_of (AList.update col (scalar_value r col) asv) c = Some (scalar_value r c)"
      using Cons.prems(3) by (simp add: update_conv')
    ultimately show ?thesis using Cons.IH Cons.prems(2) by blast
  next
    case False
    then have ne: "col \<noteq> c" using Cons.prems(2) by auto
    show ?thesis
    proof (cases "map_of r col")
      case None
      then show ?thesis using Cons.prems False by (auto split: sum.splits)
    next
      case (Some v)
      with Cons.prems(1) False obtain ap1 vs where
        "columns_loop b n r cols (AList.update col (JList (vs @ [v])) (setdefault col (JList []) asv), ap1)
           = Inr (asv', ap')"
        by (auto split: sum.splits option.splits json.splits)
      moreover have "map_of (AList.update col (JList (vs @ [v])) (setdefault col (JList []) asv)) c
           = Some (scalar_value r c)"
        using Cons.prems(3) ne by (auto simp: update_conv' setdefault_def split: option.splits)
      ultimately show ?thesis using Cons.IH Cons.prems(2) by blast
    qed
  qed
qed


text \<open>
  C5, as stated: the scalar value emitted for a benchmark is the one of the first record
  that carries it. The two records below carry the versions \<open>first\<close> and \<open>second\<close>, in
  this order, and the version emitted is \<open>second\<close>.
\<close>

theorem scalar_first_wins_counterexample:
  "map_of (hd versions_records) ''version'' = Some (JStr ''first'')
   \<and> octobus_results_to_asv_results versions_state =
       Inr (versions_state\<lparr>results := Some
         [(''bench'',
           [JList [JNum 1, JNum 2], JList [JList [JStr ''1'', JStr ''2'']],
            JStr ''second''])]\<rparr>)"
  by (simp add: octobus_results_to_asv_results_def versions_state_def versions_records_def
      bench_columns_def bench_asv_results_def SCALAR_COLUMNS_def setdefault_def ordered_set_add_def)

text \<open>
  C5, amended. For every benchmark and every declared scalar column (version, started_at,
  duration): when the last record carries every column declared before it that is not a
  scalar one (so that the walk over the columns reaches it for that record), the value
  emitted is the one of the last record, null when the record lacks the field; what
  earlier records carried is overwritten.
\<close>

theorem scalar_column_last_wins:
  assumes run: "bench_asv_results benchmark names (pre @ column # post) (records @ [result]) = Inr asv_results"
    and scalar: "column \<in> set SCALAR_COLUMNS"
    and reach: "\<forall>c \<in> set pre. c \<in> set SCALAR_COLUMNS \<or> map_of result c \<noteq> None"
  shows "map_of asv_results column =
           Some (case map_of result column of None \<Rightarrow> JNull | Some v \<Rightarrow> v)"
proof -
  from run obtain asv ap where
    loop: "records_loop benchmark names (pre @ column # post) (records @ [result]) ([], []) = Inr (asv, ap)"
    and out: "asv_results = AList.update ''params'' (JList (map (\<lambda>(name, vs). JList vs) ap)) asv"
    by (auto simp: bench_asv_results_def split: sum.splits)
  from loop obtain st where
    last: "columns_loop benchmark names result (pre @ column # post) st = Inr (asv, ap)"
    by (auto simp: records_loop_append split: sum.splits)
  from columns_loop_reaches [OF last reach] obtain asv1 ap1 where
    at: "columns_loop benchmark names result (column # post) (asv1, ap1) = Inr (asv, ap)"
    by force
  have np: "column \<noteq> ''params''" using scalar by (auto simp: SCALAR_COLUMNS_def)
  from at scalar np have
    "columns_loop benchmark names result post
       (AList.update column (scalar_value result column) asv1, ap1) = Inr (asv, ap)"
    by (simp add: scalar_value_def)
  then have "map_of asv column = Some (scalar_value result column)"
    by (rule columns_loop_keeps_scalar) (simp_all add: scalar update_conv')
  then show ?thesis using out np by (simp add: update_conv' scalar_value_def)
qed

theorem scalar_column_last_wins_witness:
  "bench_asv_results ''bench'' (Some [''p'']) ([''result'', ''params''] @ ''version'' # [])
     ([hd versions_records] @ [last versions_records]) =
     Inr [(''result'', JList [JNum 1, JNum 2]),
          (''params'', JList [JList [JStr ''1'', JStr ''2'']]),
          (''version'', JStr ''second'')]
   \<and> map_of [(''result'', JList [JNum 1, JNum 2]),
          (''params'', JList [JList [JStr ''1'', JStr ''2'']]),
          (''version'', JStr ''second'')] ''version'' =
       Some (case map_of (last versions_records) ''version'' of None \<Rightarrow> JNull | Some v \<Rightarrow> v)"
proof -
  have run: "bench_asv_results ''bench'' (Some [''p'']) ([''result'', ''params''] @ ''version'' # [])
     ([hd versions_records] @ [last versions_records]) =
     Inr [(''result'', JList [JNum 1, JNum 2]),
          (''params'', JList [JList [JStr ''1'', JStr ''2'']]),
          (''version'', JStr ''second'')]"
    by (simp add: versions_records_def bench_asv_results_def SCALAR_COLUMNS_def setdefault_def ordered_set_add_def)
  have s: "''version'' \<in> set SCALAR_COLUMNS" by (simp add: SCALAR_COLUMNS_def)
  have r: "\<forall>c \<in> set [''result'', ''params''].
             c \<in> set SCALAR_COLUMNS \<or> map_of (last versions_records) c \<noteq> None"
    by (simp add: versions_records_def)
  show ?thesis
    using scalar_column_last_wins [OF run s r] run by simp
qed







section \<open>Column form to object form and back\<close>

subsection \<open>Ordered sets and the components of the cartesian product\<close>

lemma set_foldl_ordered_set_add:
  "set (foldl ordered_set_add acc xs) = set acc \<union> set xs"
  by (induction xs arbitrary: acc) (auto simp: ordered_set_add_def)

lemma foldl_ordered_set_add_seen:
  "set xs \<subseteq> set acc \<Longrightarrow> foldl ordered_set_add acc xs = acc"
  by (induction xs arbitrary: acc) (auto simp: ordered_set_add_def)

lemma foldl_ordered_set_add_replicate:
  "v \<notin> set acc \<Longrightarrow> 0 < n \<Longrightarrow> foldl ordered_set_add acc (replicate n v) = acc @ [v]"
proof -
  assume v: "v \<notin> set acc" and n: "0 < n"
  then obtain m where m: "n = Suc m" by (cases n) auto
  have "foldl ordered_set_add (acc @ [v]) (replicate m v) = acc @ [v]"
    by (rule foldl_ordered_set_add_seen) auto
  then show ?thesis using v m by (simp add: ordered_set_add_def)
qed

lemma foldl_ordered_set_add_blocks:
  "distinct (acc @ d) \<Longrightarrow> 0 < n \<Longrightarrow>
   foldl ordered_set_add acc (concat (map (replicate n) d)) = acc @ d"
proof (induction d arbitrary: acc)
  case Nil
  then show ?case by simp
next
  case (Cons v d)
  have "foldl ordered_set_add acc (replicate n v) = acc @ [v]"
    using Cons.prems by (intro foldl_ordered_set_add_replicate) auto
  moreover have "foldl ordered_set_add (acc @ [v]) (concat (map (replicate n) d)) = (acc @ [v]) @ d"
    using Cons.prems by (intro Cons.IH) auto
  ultimately show ?case by simp
qed

lemma foldl_ordered_set_add_repeat:
  "0 < n \<Longrightarrow> foldl ordered_set_add [] (concat (replicate n xs)) = foldl ordered_set_add [] xs"
proof -
  assume "0 < n"
  then obtain m where m: "n = Suc m" by (cases n) auto
  have "set (concat (replicate m xs)) \<subseteq> set (foldl ordered_set_add [] xs)"
    by (auto simp: set_foldl_ordered_set_add)
  then have "foldl ordered_set_add (foldl ordered_set_add [] xs) (concat (replicate m xs))
             = foldl ordered_set_add [] xs"
    by (rule foldl_ordered_set_add_seen)
  then show ?thesis by (simp add: m)
qed

lemma product_lists_component_0:
  "map (\<lambda>x. x ! 0) (product_lists (d # ds)) =
     concat (map (replicate (length (product_lists ds))) d)"
  by (simp add: map_concat comp_def map_replicate_const)

lemma product_lists_component_Suc:
  "map (\<lambda>x. x ! Suc j) (product_lists (d # ds)) =
     concat (replicate (length d) (map (\<lambda>x. x ! j) (product_lists ds)))"
  by (simp add: map_concat comp_def map_replicate_const)

lemma length_product_lists_prod: "length (product_lists ds) = prod_list (map length ds)"
  by (induction ds) (auto simp: length_concat comp_def sum_list_triv)

lemma length_product_lists_pos:
  "\<forall>d \<in> set ds. d \<noteq> [] \<Longrightarrow> 0 < length (product_lists ds)"
  unfolding length_product_lists_prod by (induction ds) auto

lemma first_seen_component:
  assumes "\<forall>d \<in> set ds. d \<noteq> [] \<and> distinct d" "j < length ds"
  shows "foldl ordered_set_add [] (map (\<lambda>x. x ! j) (product_lists ds)) = ds ! j"
  using assms
proof (induction ds arbitrary: j)
  case Nil
  then show ?case by simp
next
  case (Cons d ds)
  show ?case
  proof (cases j)
    case 0
    have "0 < length (product_lists ds)"
      using Cons.prems(1) by (intro length_product_lists_pos) auto
    moreover have "distinct ([] @ d)" using Cons.prems(1) by simp
    ultimately have "foldl ordered_set_add [] (concat (map (replicate (length (product_lists ds))) d)) = [] @ d"
      by (intro foldl_ordered_set_add_blocks)
    then show ?thesis using 0 by (simp only: product_lists_component_0) simp
  next
    case (Suc i)
    have "0 < length d" using Cons.prems(1) by auto
    then have "foldl ordered_set_add [] (concat (replicate (length d) (map (\<lambda>x. x ! i) (product_lists ds))))
          = foldl ordered_set_add [] (map (\<lambda>x. x ! i) (product_lists ds))"
      by (rule foldl_ordered_set_add_repeat)
    also have "\<dots> = ds ! i" using Cons.prems Suc by (intro Cons.IH) auto
    finally show ?thesis using Suc by (simp only: product_lists_component_Suc) simp
  qed
qed

lemma product_lists_elem:
  "x \<in> set (product_lists ds) \<Longrightarrow> length x = length ds \<and> (\<forall>j < length ds. x ! j \<in> set (ds ! j))"
  by (auto simp: product_lists_set list_all2_conv_all_nth)

subsection \<open>Dictionaries with distinct keys\<close>

lemma update_at:
  "k \<notin> fst ` set pre \<Longrightarrow> AList.update k v (pre @ (k, w) # post) = pre @ (k, v) # post"
  by (induction pre) auto

lemma map_of_at:
  "k \<notin> fst ` set pre \<Longrightarrow> map_of (pre @ (k, w) # post) k = Some w"
  by (induction pre) auto

lemma map_of_keyed_None: "k \<notin> set ks \<Longrightarrow> map_of (map (\<lambda>c. (c, f c)) ks) k = None"
  by (induction ks) auto

lemma keyed_keys: "fst ` set (map (\<lambda>c. (c, f c)) ks) = set ks"
  by (induction ks) auto

lemma ordered_dict_acc:
  "distinct (map fst (acc @ ps)) \<Longrightarrow>
   foldl (\<lambda>d (k, v). AList.update k v d) acc ps = acc @ ps"
proof (induction ps arbitrary: acc)
  case Nil
  then show ?case by simp
next
  case (Cons p ps)
  obtain k v where p: "p = (k, v)" by (cases p)
  have "map_of acc k = None"
    using Cons.prems p by (auto simp: map_of_eq_None_iff)
  then have "AList.update k v acc = acc @ [(k, v)]" by (rule update_fresh)
  moreover have "foldl (\<lambda>d (k, v). AList.update k v d) (acc @ [(k, v)]) ps = (acc @ [(k, v)]) @ ps"
    using Cons.prems p by (intro Cons.IH) simp
  ultimately show ?case using p by simp
qed

lemma ordered_dict_distinct: "distinct (map fst ps) \<Longrightarrow> ordered_dict ps = ps"
  using ordered_dict_acc [of "[]" ps] by (simp add: ordered_dict_def)

lemma ordered_dict_zip:
  "distinct ks \<Longrightarrow> ordered_dict (zip ks vs) = zip ks vs"
  by (rule ordered_dict_distinct) (simp add: map_fst_zip_take distinct_take)

subsection \<open>The fields of a record made by build_record\<close>

lemma build_record_fold:
  "map_of
     (foldl
       (\<lambda>new field.
          if field = ''params'' then new
          else
            (case map_of rao field of
               None \<Rightarrow> new
             | Some (JList corresponding_values) \<Rightarrow>
                 AList.update field
                   (if i < length corresponding_values then corresponding_values ! i
                    else JNull) new
             | Some corresponding_values \<Rightarrow> AList.update field corresponding_values new))
       acc cols) c =
   (if c \<noteq> ''params'' \<and> c \<in> set cols \<and> map_of rao c \<noteq> None
    then Some (field_value rao i c) else map_of acc c)"
proof (induction cols arbitrary: acc)
  case Nil
  then show ?case by simp
next
  case (Cons col cols)
  show ?case
    by (simp only: foldl_Cons Cons.IH)
       (auto simp: update_conv' field_value_def split: option.splits json.splits)
qed

lemma build_record_lookup:
  "map_of (build_record cols rao i combo) c =
     (if c = ''params'' then Some (JDict combo)
      else if c \<in> set cols \<and> map_of rao c \<noteq> None then Some (field_value rao i c)
      else None)"
  unfolding build_record_def build_record_fold by auto

subsection \<open>One record: the walk over the parameter names and over the columns\<close>

lemma params_sweep:
  assumes "distinct (done @ todo)"
    and "map_of r ''params'' = Some (JDict p)"
    and "\<forall>nm \<in> set todo. \<exists>v. map_of p nm = Some v \<and> hashable v"
    and "first \<Longrightarrow> \<forall>nm. prev nm = []"
  shows "params_loop r todo
           (map (\<lambda>nm. (nm, ordered_set_add (prev nm) (the (map_of p nm)))) done @
            (if first then [] else map (\<lambda>nm. (nm, prev nm)) todo))
         = Inr (map (\<lambda>nm. (nm, ordered_set_add (prev nm) (the (map_of p nm)))) (done @ todo))"
  using assms(1,3)
proof (induction todo arbitrary: "done")
  case Nil
  then show ?case by simp
next
  case (Cons nm todo)
  let ?new = "\<lambda>nm. (nm, ordered_set_add (prev nm) (the (map_of p nm)))"
  let ?old = "\<lambda>nm. (nm, prev nm)"
  let ?st = "map ?new done @ (if first then [] else map ?old (nm # todo))"
  obtain v where v: "map_of p nm = Some v" "hashable v" using Cons.prems(2) by auto
  have fresh: "nm \<notin> fst ` set (map ?new done)"
    using Cons.prems(1) by (auto simp: image_iff)
  have nt: "nm \<notin> set todo" using Cons.prems(1) by auto
  have sd: "setdefault nm [] ?st = map ?new done @ (nm, prev nm) # (if first then [] else map ?old todo)"
  proof (cases first)
    case True
    then have "map_of ?st nm = None" using fresh by (simp add: map_of_eq_None_iff)
    then show ?thesis using True assms(4) by (simp add: setdefault_def)
  next
    case False
    then have "map_of ?st nm = Some (prev nm)"
      using map_of_at [OF fresh] by simp
    then show ?thesis using False by (simp add: setdefault_def)
  qed
  have look: "map_of (setdefault nm [] ?st) nm = Some (prev nm)"
    unfolding sd using map_of_at [OF fresh] by simp
  have upd: "AList.update nm (ordered_set_add (prev nm) v) (setdefault nm [] ?st)
             = map ?new (done @ [nm]) @ (if first then [] else map ?old todo)"
    unfolding sd using update_at [OF fresh] v(1) by simp
  have "params_loop r (nm # todo) ?st
        = params_loop r todo (map ?new (done @ [nm]) @ (if first then [] else map ?old todo))"
    using assms(2) v look upd by (simp add: Let_def)
  also have "\<dots> = Inr (map ?new ((done @ [nm]) @ todo))"
    using Cons.prems by (intro Cons.IH) auto
  finally show ?case by simp
qed


lemma columns_sweep:
  assumes "distinct (done @ todo)"
    and "\<forall>c \<in> set todo. \<exists>v. map_of r c = Some v"
    and "rest = [] \<or> (hd rest \<notin> set SCALAR_COLUMNS \<and> hd rest \<noteq> ''params'' \<and> map_of r (hd rest) = None)"
    and "''params'' \<in> set todo \<Longrightarrow> params_loop r names ap = Inr ap'"
    and "first \<Longrightarrow> \<forall>c. prev c = []"
  shows "columns_loop b (Some names) r (todo @ rest)
           (map (\<lambda>c. (c, if c \<in> set SCALAR_COLUMNS then the (map_of r c)
                          else JList (prev c @ [the (map_of r c)]))) done @
            (if first then []
             else map (\<lambda>c. (c, if c \<in> set SCALAR_COLUMNS then old c else JList (prev c))) todo),
            if ''params'' \<in> set done then ap' else ap)
         = Inr (map (\<lambda>c. (c, if c \<in> set SCALAR_COLUMNS then the (map_of r c)
                          else JList (prev c @ [the (map_of r c)]))) (done @ todo),
                if ''params'' \<in> set (done @ todo) then ap' else ap)"
  using assms(1,2,4)
proof (induction todo arbitrary: "done")
  case Nil
  show ?case
  proof (cases rest)
    case Nil
    then show ?thesis by simp
  next
    case (Cons c cs)
    then show ?thesis using assms(3) by simp
  qed
next
  case (Cons c todo)
  let ?new = "\<lambda>c. (c, if c \<in> set SCALAR_COLUMNS then the (map_of r c)
                          else JList (prev c @ [the (map_of r c)]))"
  let ?old = "\<lambda>c. (c, if c \<in> set SCALAR_COLUMNS then old c else JList (prev c))"
  let ?asv = "map ?new done @ (if first then [] else map ?old (c # todo))"
  let ?ap1 = "if ''params'' \<in> set (done @ [c]) then ap' else ap"
  obtain v where v: "map_of r c = Some v" using Cons.prems(2) by auto
  have fresh: "c \<notin> fst ` set (map ?new done)"
    using Cons.prems(1) by (auto simp: image_iff)
  have pd: "''params'' \<notin> set done" if "c = ''params''"
    using Cons.prems(1) that by auto
  have par: "(if c = ''params'' then
              (case Some names of None \<Rightarrow> Inl (KeyError b)
               | Some ns \<Rightarrow> params_loop r ns (if ''params'' \<in> set done then ap' else ap))
            else Inr (if ''params'' \<in> set done then ap' else ap)) = Inr ?ap1"
    using Cons.prems(3) pd by auto
  have nxt: "columns_loop b (Some names) r (todo @ rest)
               (map ?new (done @ [c]) @ (if first then [] else map ?old todo), ?ap1)
             = Inr (map ?new ((done @ [c]) @ todo),
                    if ''params'' \<in> set ((done @ [c]) @ todo) then ap' else ap)"
    using Cons.prems by (intro Cons.IH) auto
  show ?case
  proof (cases "c \<in> set SCALAR_COLUMNS")
    case True
    have upd: "AList.update c v ?asv = map ?new (done @ [c]) @ (if first then [] else map ?old todo)"
    proof (cases first)
      case True
      then have "map_of ?asv c = None" using fresh by (simp add: map_of_eq_None_iff)
      then show ?thesis using True \<open>c \<in> set SCALAR_COLUMNS\<close> v by (simp add: update_fresh)
    next
      case False
      then show ?thesis using update_at [OF fresh] \<open>c \<in> set SCALAR_COLUMNS\<close> v by simp
    qed
    have "columns_loop b (Some names) r ((c # todo) @ rest)
            (?asv, if ''params'' \<in> set done then ap' else ap)
          = columns_loop b (Some names) r (todo @ rest)
              (map ?new (done @ [c]) @ (if first then [] else map ?old todo), ?ap1)"
      using True v par upd by (simp del: map_append)
    then show ?thesis using nxt by simp
  next
    case False
    have sd: "setdefault c (JList []) ?asv
              = map ?new done @ (c, JList (prev c)) # (if first then [] else map ?old todo)"
    proof (cases first)
      case True
      then have "map_of ?asv c = None" using fresh by (simp add: map_of_eq_None_iff)
      then show ?thesis using True assms(5) by (simp add: setdefault_def)
    next
      case f: False
      then have "map_of ?asv c = Some (JList (prev c))"
        using map_of_at [OF fresh] False by simp
      then show ?thesis using f False by (simp add: setdefault_def)
    qed
    have look: "map_of (setdefault c (JList []) ?asv) c = Some (JList (prev c))"
      unfolding sd using map_of_at [OF fresh] by simp
    have upd: "AList.update c (JList (prev c @ [v])) (setdefault c (JList []) ?asv)
               = map ?new (done @ [c]) @ (if first then [] else map ?old todo)"
      unfolding sd using update_at [OF fresh] False v by simp
    have "columns_loop b (Some names) r ((c # todo) @ rest)
            (?asv, if ''params'' \<in> set done then ap' else ap)
          = columns_loop b (Some names) r (todo @ rest)
              (map ?new (done @ [c]) @ (if first then [] else map ?old todo), ?ap1)"
      using False v par[simplified] look upd by (simp del: map_append)
    then show ?thesis using nxt by simp
  qed
qed

subsection \<open>All the records of one benchmark\<close>

lemma records_sweep:
  assumes ks: "distinct ks" "''params'' \<in> set ks" and names: "distinct names"
    and fields: "\<forall>n < length rs. \<forall>c \<in> set ks. \<exists>v. map_of (rs ! n) c = Some v"
    and cut: "\<forall>n < length rs. rest = [] \<or>
               (hd rest \<notin> set SCALAR_COLUMNS \<and> hd rest \<noteq> ''params'' \<and> map_of (rs ! n) (hd rest) = None)"
    and params: "\<forall>n < length rs. map_of (rs ! n) ''params'' = Some (JDict (ps n))"
    and vals: "\<forall>n < length rs. \<forall>nm \<in> set names. \<exists>v. map_of (ps n) nm = Some v \<and> hashable v"
    and n: "n \<le> length rs"
  shows "records_loop b (Some names) (ks @ rest) (take n rs) ([], []) =
         Inr (if n = 0 then ([], [])
              else (map (\<lambda>c. (c, if c \<in> set SCALAR_COLUMNS then the (map_of (rs ! (n - 1)) c)
                                 else JList (map (\<lambda>i. the (map_of (rs ! i) c)) [0..<n]))) ks,
                    map (\<lambda>nm. (nm, foldl ordered_set_add []
                                      (map (\<lambda>i. the (map_of (ps i) nm)) [0..<n]))) names))"
  using n
proof (induction n)
  case 0
  then show ?case by simp
next
  case (Suc n)
  let ?r = "rs ! n"
  let ?prev = "\<lambda>c. map (\<lambda>i. the (map_of (rs ! i) c)) [0..<n]"
  let ?old = "\<lambda>c. the (map_of (rs ! (n - 1)) c)"
  let ?seen = "\<lambda>nm. foldl ordered_set_add [] (map (\<lambda>i. the (map_of (ps i) nm)) [0..<n])"
  let ?A = "\<lambda>n. map (\<lambda>c. (c, if c \<in> set SCALAR_COLUMNS then the (map_of (rs ! (n - 1)) c)
                                 else JList (map (\<lambda>i. the (map_of (rs ! i) c)) [0..<n]))) ks"
  let ?B = "\<lambda>n. map (\<lambda>nm. (nm, foldl ordered_set_add []
                                      (map (\<lambda>i. the (map_of (ps i) nm)) [0..<n]))) names"
  let ?ap = "if n = 0 then [] else ?B n"
  have lt: "n < length rs" using Suc.prems by simp
  have before: "records_loop b (Some names) (ks @ rest) (take n rs) ([], []) =
                Inr (if n = 0 then ([], []) else (?A n, ?B n))"
    using Suc.IH lt by simp
  have ploop: "params_loop ?r names ?ap = Inr (?B (Suc n))"
  proof -
    have "params_loop ?r names
           (map (\<lambda>nm. (nm, ordered_set_add (?seen nm) (the (map_of (ps n) nm)))) [] @
            (if n = 0 then [] else map (\<lambda>nm. (nm, ?seen nm)) names))
         = Inr (map (\<lambda>nm. (nm, ordered_set_add (?seen nm) (the (map_of (ps n) nm)))) ([] @ names))"
      by (rule params_sweep) (use names params vals lt in auto)
    then show ?thesis by simp
  qed
  have cloop: "columns_loop b (Some names) ?r (ks @ rest)
           (map (\<lambda>c. (c, if c \<in> set SCALAR_COLUMNS then the (map_of ?r c)
                          else JList (?prev c @ [the (map_of ?r c)]))) [] @
            (if n = 0 then []
             else map (\<lambda>c. (c, if c \<in> set SCALAR_COLUMNS then ?old c else JList (?prev c))) ks),
            if ''params'' \<in> set [] then ?B (Suc n) else ?ap)
         = Inr (map (\<lambda>c. (c, if c \<in> set SCALAR_COLUMNS then the (map_of ?r c)
                          else JList (?prev c @ [the (map_of ?r c)]))) ([] @ ks),
                if ''params'' \<in> set ([] @ ks) then ?B (Suc n) else ?ap)"
    by (rule columns_sweep) (use ks fields cut lt ploop in auto)
  have step: "columns_loop b (Some names) ?r (ks @ rest) (if n = 0 then ([], []) else (?A n, ?B n))
              = Inr (?A (Suc n), ?B (Suc n))"
  proof (cases "n = 0")
    case True
    then show ?thesis using cloop ks(2) by simp
  next
    case False
    then show ?thesis using cloop ks(2) by simp
  qed
  have "take (Suc n) rs = take n rs @ [?r]" using lt by (simp add: take_Suc_conv_app_nth)
  then show ?case using before step by (simp add: records_loop_append)
qed

lemma dimensions_lists:
  assumes "list_all dimension_ok dims"
  shows "dims = map JList (map dimension_values dims)"
    and "\<forall>d \<in> set (map dimension_values dims). d \<noteq> [] \<and> distinct d \<and> list_all hashable d"
    and "map dimension_size dims = map length (map dimension_values dims)"
  using assms
  by (induction dims)
     (auto simp: dimension_ok_def dimension_values_def dimension_size_def split: json.splits)

lemma mapM_py_iter_lists: "mapM py_iter (map JList cands) = Inr cands"
  by (induction cands) auto

lemma bench_records_eval:
  assumes "distinct names" "distinct cols" "length lines \<le> length cols"
    and "map_of (zip cols lines) ''params'' = Some (JList (map JList cands))"
    and "length cands = length names"
  shows "\<exists>rs. bench_records names cols lines = Inr rs \<and>
           length rs = length (product_lists cands) \<and>
           (\<forall>n < length rs. rs ! n =
              build_record cols (zip cols lines) n (zip names (product_lists cands ! n)))"
proof -
  let ?X = "product_lists cands"
  let ?rs = "map (\<lambda>(index, combo). build_record cols (zip cols lines) index combo)
               (enumerate 0 (map (\<lambda>x. ordered_dict (zip names x)) ?X))"
  have z: "ordered_dict (zip names (map JList cands)) = zip names (map JList cands)"
    using assms(1) by (rule ordered_dict_zip)
  have s: "map snd (zip names (map JList cands)) = map JList cands"
    and f: "map fst (zip names (map JList cands)) = names"
    using assms(5) by simp_all
  have run: "bench_records names cols lines = Inr ?rs"
    using assms(3,4,5)
    by (simp add: bench_records_def ordered_dict_zip [OF assms(2)] z s f mapM_py_iter_lists)
  have len: "length ?rs = length ?X" by simp
  have nth: "?rs ! n = build_record cols (zip cols lines) n (zip names (?X ! n))"
    if "n < length ?rs" for n
    using that by (simp add: nth_enumerate_eq ordered_dict_zip [OF assms(1)])
  show ?thesis using run len nth by blast
qed


lemma update_keyed:
  "AList.update k v (map (\<lambda>c. (c, f c)) ks) =
     (if k \<in> set ks then map (\<lambda>c. (c, if c = k then v else f c)) ks
      else map (\<lambda>c. (c, f c)) ks @ [(k, v)])" if "distinct ks"
  using that by (induction ks) auto

lemma zip_lookup:
  "distinct ks \<Longrightarrow> i < length ks \<Longrightarrow> i < length vs \<Longrightarrow> map_of (zip ks vs) (ks ! i) = Some (vs ! i)"
  by (metis distinct_take length_take length_zip map_fst_zip_take map_of_eq_Some_iff
      min_less_iff_conj nth_mem nth_zip)

lemma bench_roundtrip:
  assumes wf: "cartesian_lines names cols lines" and cols: "distinct cols"
    and cutv: "cut_at_vector cols lines"
  shows "\<exists>rs. bench_records names cols lines = Inr rs \<and> rs \<noteq> [] \<and>
              bench_columns b (Some names) cols rs = Inr lines"
proof -
  let ?cl = "zip cols lines"
  let ?k = "length lines"
  let ?ks = "take ?k cols"
  let ?rest = "drop ?k cols"
  from wf obtain dims where names: "distinct names" and le: "?k \<le> length cols"
    and pc: "map_of ?cl ''params'' = Some (JList dims)"
    and ld: "length dims = length names"
    and dok: "list_all dimension_ok dims"
    and cok: "list_all (column_ok (prod_list (map dimension_size dims))) ?cl"
    by (auto simp: cartesian_lines_def split: option.splits json.splits)
  define cands where "cands = map dimension_values dims"
  let ?X = "product_lists cands"
  let ?N = "length ?X"
  have dims: "dims = map JList cands"
    and cprops: "\<forall>d \<in> set cands. d \<noteq> [] \<and> distinct d \<and> list_all hashable d"
    and sizes: "map dimension_size dims = map length cands"
    using dimensions_lists [OF dok] by (simp_all add: cands_def)
  have lc: "length cands = length names" using ld by (simp add: cands_def)
  have N: "prod_list (map dimension_size dims) = ?N"
    by (simp add: sizes length_product_lists_prod)
  have Npos: "0 < ?N" using cprops by (intro length_product_lists_pos) auto
  have keys: "map fst ?cl = ?ks" by (simp add: map_fst_zip_take min_def)
  have dks: "distinct ?ks" using cols by (rule distinct_take)
  have split: "cols = ?ks @ ?rest" by simp
  have pin: "''params'' \<in> set ?ks"
    using pc keys by (metis map_of_SomeD set_zip_leftD keys set_map image_eqI fst_conv)
  from bench_records_eval [OF names cols le pc [unfolded dims] lc]
  obtain rs where run: "bench_records names cols lines = Inr rs"
    and len: "length rs = ?N"
    and nth: "\<forall>n < length rs. rs ! n = build_record cols ?cl n (zip names (?X ! n))"
    by blast
  have inkeys: "map_of ?cl c \<noteq> None" if "c \<in> set ?ks" for c
    using that keys by (metis map_of_eq_None_iff set_map)
  have look: "map_of (rs ! n) c =
     (if c = ''params'' then Some (JDict (zip names (?X ! n)))
      else if c \<in> set ?ks then Some (field_value ?cl n c) else None)"
    if "n < length rs" for n c
  proof -
    have "c \<in> set cols \<and> map_of ?cl c \<noteq> None \<longleftrightarrow> c \<in> set ?ks"
      using inkeys keys by (metis in_set_takeD map_of_eq_None_iff set_map)
    then show ?thesis using nth that by (simp add: build_record_lookup)
  qed
  have fields: "\<forall>n < length rs. \<forall>c \<in> set ?ks. \<exists>v. map_of (rs ! n) c = Some v"
    using look by simp
  have cut: "\<forall>n < length rs. ?rest = [] \<or>
               (hd ?rest \<notin> set SCALAR_COLUMNS \<and> hd ?rest \<noteq> ''params'' \<and>
                map_of (rs ! n) (hd ?rest) = None)"
  proof (cases "?k < length cols")
    case False
    then show ?thesis by simp
  next
    case True
    then have hd: "hd ?rest = cols ! ?k" by (simp add: hd_drop_conv_nth)
    have notin: "cols ! ?k \<notin> set ?ks"
      using cols True by (metis distinct_append hd hd_in_set split disjoint_iff drop_eq_Nil2 leD)
    have "cols ! ?k \<notin> set SCALAR_COLUMNS" using cutv True by (simp add: cut_at_vector_def)
    moreover have "cols ! ?k \<noteq> ''params''" using notin pin by auto
    ultimately show ?thesis using look notin hd by simp
  qed
  have params: "\<forall>n < length rs. map_of (rs ! n) ''params'' = Some (JDict (zip names (?X ! n)))"
    using look by simp
  have xprops: "length (?X ! n) = length names \<and> (\<forall>j < length names. ?X ! n ! j \<in> set (cands ! j))"
    if "n < ?N" for n
    using product_lists_elem [of "?X ! n" cands] that lc by simp
  have pval: "map_of (zip names (?X ! n)) (names ! j) = Some (?X ! n ! j)"
    if "n < ?N" "j < length names" for n j
  proof -
    have "j < length (?X ! n)" using xprops [OF that(1)] that(2) by simp
    then show ?thesis by (rule zip_lookup [OF names that(2)])
  qed
  have vals: "\<forall>n < length rs. \<forall>nm \<in> set names.
                \<exists>v. map_of (zip names (?X ! n)) nm = Some v \<and> hashable v"
  proof (intro allI impI ballI)
    fix n nm assume n: "n < length rs" and "nm \<in> set names"
    then obtain j where j: "j < length names" "nm = names ! j" by (auto simp: in_set_conv_nth)
    have "?X ! n ! j \<in> set (cands ! j)" using xprops n len j(1) by simp
    moreover have "list_all hashable (cands ! j)" using cprops j(1) lc by simp
    ultimately have "hashable (?X ! n ! j)" by (simp add: list_all_iff)
    then show "\<exists>v. map_of (zip names (?X ! n)) nm = Some v \<and> hashable v"
      using pval n len j by simp
  qed
  let ?A = "map (\<lambda>c. (c, if c \<in> set SCALAR_COLUMNS then the (map_of (rs ! (?N - 1)) c)
                         else JList (map (\<lambda>i. the (map_of (rs ! i) c)) [0..<?N]))) ?ks"
  let ?B = "map (\<lambda>nm. (nm, foldl ordered_set_add []
                              (map (\<lambda>i. the (map_of (zip names (?X ! i)) nm)) [0..<?N]))) names"
  have "records_loop b (Some names) (?ks @ ?rest) (take ?N rs) ([], []) =
         Inr (if ?N = 0 then ([], []) else (?A, ?B))"
    by (rule records_sweep [OF dks pin names fields cut params vals]) (simp add: len)
  then have loop: "records_loop b (Some names) cols rs ([], []) = Inr (?A, ?B)"
    using Npos len by simp
  have B: "map (\<lambda>(name, vs). JList vs) ?B = dims"
  proof -
    have comp: "foldl ordered_set_add []
                  (map (\<lambda>i. the (map_of (zip names (?X ! i)) (names ! j))) [0..<?N]) = cands ! j"
      if "j < length names" for j
    proof -
      have "map (\<lambda>i. the (map_of (zip names (?X ! i)) (names ! j))) [0..<?N]
            = map (\<lambda>i. ?X ! i ! j) [0..<?N]"
        using pval that by simp
      also have "\<dots> = map (\<lambda>x. x ! j) ?X"
        by (rule nth_equalityI) simp_all
      finally show ?thesis
        using first_seen_component [of cands j] cprops that lc by simp
    qed
    have "map (\<lambda>(name, vs). JList vs) ?B
          = map (\<lambda>nm. JList (foldl ordered_set_add []
                  (map (\<lambda>i. the (map_of (zip names (?X ! i)) nm)) [0..<?N]))) names"
      by (simp add: comp_def)
    also have "\<dots> = map (\<lambda>j. JList (cands ! j)) [0..<length names]"
      by (rule nth_equalityI) (simp_all add: comp)
    also have "\<dots> = map JList cands"
      using lc by (intro nth_equalityI) simp_all
    finally show ?thesis using dims by simp
  qed
  have asv: "bench_asv_results b (Some names) cols rs =
               Inr (map (\<lambda>c. (c, if c = ''params'' then JList dims
                                 else if c \<in> set SCALAR_COLUMNS then the (map_of (rs ! (?N - 1)) c)
                                 else JList (map (\<lambda>i. the (map_of (rs ! i) c)) [0..<?N]))) ?ks)"
    using loop B pin by (simp add: bench_asv_results_def update_keyed [OF dks] del: map_map)
  have out: "map snd (map (\<lambda>c. (c, if c = ''params'' then JList dims
                                 else if c \<in> set SCALAR_COLUMNS then the (map_of (rs ! (?N - 1)) c)
                                 else JList (map (\<lambda>i. the (map_of (rs ! i) c)) [0..<?N]))) ?ks)
             = lines"
  proof (rule nth_equalityI)
    show "length (map snd (map (\<lambda>c. (c, if c = ''params'' then JList dims
                                 else if c \<in> set SCALAR_COLUMNS then the (map_of (rs ! (?N - 1)) c)
                                 else JList (map (\<lambda>i. the (map_of (rs ! i) c)) [0..<?N]))) ?ks))
          = length lines"
      using le by simp
  next
    fix i assume "i < length (map snd (map (\<lambda>c. (c, if c = ''params'' then JList dims
                                 else if c \<in> set SCALAR_COLUMNS then the (map_of (rs ! (?N - 1)) c)
                                 else JList (map (\<lambda>i. the (map_of (rs ! i) c)) [0..<?N]))) ?ks))"
    then have i: "i < ?k" using le by simp
    let ?c = "cols ! i"
    have ci: "?ks ! i = ?c" using i by simp
    have cin: "?c \<in> set ?ks" using i le by (metis ci length_take min.absorb2 nth_mem)
    have li: "map_of ?cl ?c = Some (lines ! i)"
      using zip_lookup [OF cols, of i lines] i le by simp
    have ok: "column_ok ?N (?c, lines ! i)"
    proof -
      have "(?c, lines ! i) \<in> set ?cl" using li by (rule map_of_SomeD)
      then show ?thesis using cok N by (simp add: list_all_iff)
    qed
    have val: "(if ?c = ''params'' then JList dims
                else if ?c \<in> set SCALAR_COLUMNS then the (map_of (rs ! (?N - 1)) ?c)
                else JList (map (\<lambda>i. the (map_of (rs ! i) ?c)) [0..<?N])) = lines ! i"
    proof (cases "?c = ''params''")
      case True
      then show ?thesis using li pc by simp
    next
      case np: False
      show ?thesis
      proof (cases "?c \<in> set SCALAR_COLUMNS")
        case True
        then have "field_value ?cl (?N - 1) ?c = lines ! i"
          using ok np li by (auto simp: column_ok_def field_value_def split: json.splits)
        then show ?thesis using True np look [of "?N - 1" ?c] cin Npos len by simp
      next
        case False
        then obtain vs where vs: "lines ! i = JList vs" "length vs = ?N"
          using ok np by (auto simp: column_ok_def split: json.splits)
        have "map (\<lambda>n. the (map_of (rs ! n) ?c)) [0..<?N] = map (\<lambda>n. vs ! n) [0..<?N]"
          using look cin np len li vs by (simp add: field_value_def)
        also have "\<dots> = vs" using vs(2) by (metis map_nth)
        finally show ?thesis using False np vs by simp
      qed
    qed
    show "map snd (map (\<lambda>c. (c, if c = ''params'' then JList dims
                                 else if c \<in> set SCALAR_COLUMNS then the (map_of (rs ! (?N - 1)) c)
                                 else JList (map (\<lambda>i. the (map_of (rs ! i) c)) [0..<?N]))) ?ks) ! i
          = lines ! i"
      using i le val by simp
  qed
  have "bench_columns b (Some names) cols rs = Inr lines"
    using asv out by (simp add: bench_columns_def del: map_map)
  moreover have "rs \<noteq> []" using len Npos by auto
  ultimately show ?thesis using run by blast
qed

subsection \<open>All the benchmarks of a file\<close>

lemma dict_append_fresh:
  "map_of d k = None \<Longrightarrow> rs \<noteq> [] \<Longrightarrow> foldl (\<lambda>d r. dict_append k r d) d rs = d @ [(k, rs)]"
proof -
  assume fresh: "map_of d k = None" and "rs \<noteq> []"
  then obtain r rs' where rs: "rs = r # rs'" by (cases rs) auto
  have k: "k \<notin> fst ` set d" using fresh by (simp add: map_of_eq_None_iff)
  have "foldl (\<lambda>d r. dict_append k r d) (d @ [(k, acc)]) rs' = d @ [(k, acc @ rs')]" for acc
  proof (induction rs' arbitrary: acc)
    case Nil
    then show ?case by simp
  next
    case (Cons a rs')
    have "dict_append k a (d @ [(k, acc)]) = d @ [(k, acc @ [a])]"
      using map_of_at [OF k, of acc "[]"] update_at [OF k, of "acc @ [a]" acc "[]"]
      by (simp add: dict_append_def)
    then show ?case using Cons.IH [of "acc @ [a]"] by simp
  qed
  from this [of "[r]"] show ?thesis using fresh rs by (simp add: dict_append_def)
qed

lemma to_octobus_loop_cartesian:
  assumes "distinct (map fst res)" "distinct cols"
    and "fst ` set res \<inter> fst ` set pn = {}" "fst ` set res \<inter> fst ` set oct = {}"
    and "list_all (\<lambda>entry. case catalog (fst entry) of None \<Rightarrow> False
                   | Some names \<Rightarrow> cartesian_lines names cols (snd entry)) res"
    and "list_all (\<lambda>entry. cut_at_vector cols (snd entry)) res"
  shows "\<exists>made. to_octobus_loop catalog (Some cols) res pn oct =
                  Inr (pn @ map (\<lambda>entry. (fst entry, the (catalog (fst entry)))) res, oct @ made)
               \<and> list_all2 (entry_roundtrip catalog cols) res made"
  using assms(1,3,4,5,6)
proof (induction res arbitrary: pn oct)
  case Nil
  then show ?case by simp
next
  case (Cons entry res)
  obtain b lines where entry: "entry = (b, lines)" by (cases entry)
  from Cons.prems(4) entry obtain names where cat: "catalog b = Some names"
    and wf: "cartesian_lines names cols lines"
    by (auto split: option.splits)
  have cutv: "cut_at_vector cols lines" using Cons.prems(5) entry by simp
  from bench_roundtrip [OF wf assms(2) cutv, of b] obtain rs where
    rs: "bench_records names cols lines = Inr rs" "rs \<noteq> []"
        "bench_columns b (Some names) cols rs = Inr lines"
    by blast
  have fpn: "map_of pn b = None" and foct: "map_of oct b = None"
    using Cons.prems(2,3) entry by (auto simp: map_of_eq_None_iff)
  have step: "to_octobus_loop catalog (Some cols) (entry # res) pn oct
              = to_octobus_loop catalog (Some cols) res (pn @ [(b, names)]) (oct @ [(b, rs)])"
    using entry cat rs(1) by (simp add: update_fresh [OF fpn] dict_append_fresh [OF foct rs(2)])
  from Cons.prems(1) entry have d: "distinct (map fst res)" and nb: "b \<notin> fst ` set res" by auto
  have "\<exists>made. to_octobus_loop catalog (Some cols) res (pn @ [(b, names)]) (oct @ [(b, rs)]) =
                  Inr ((pn @ [(b, names)]) @ map (\<lambda>entry. (fst entry, the (catalog (fst entry)))) res,
                       (oct @ [(b, rs)]) @ made)
               \<and> list_all2 (entry_roundtrip catalog cols) res made"
    using Cons.prems nb d by (intro Cons.IH) auto
  then obtain made where
    m: "to_octobus_loop catalog (Some cols) res (pn @ [(b, names)]) (oct @ [(b, rs)]) =
                  Inr ((pn @ [(b, names)]) @ map (\<lambda>entry. (fst entry, the (catalog (fst entry)))) res,
                       (oct @ [(b, rs)]) @ made)"
    and l: "list_all2 (entry_roundtrip catalog cols) res made"
    by blast
  have "to_octobus_loop catalog (Some cols) (entry # res) pn oct =
          Inr (pn @ map (\<lambda>entry. (fst entry, the (catalog (fst entry)))) (entry # res),
               oct @ ((b, rs) # made))
        \<and> list_all2 (entry_roundtrip catalog cols) (entry # res) ((b, rs) # made)"
    using step m l entry cat rs(3) by (simp add: entry_roundtrip_def)
  then show ?case by blast
qed

lemma to_asv_loop_roundtrip:
  assumes "list_all2 (entry_roundtrip catalog cols) res made"
    and "distinct (map fst res)" "fst ` set res \<inter> fst ` set out = {}"
    and "\<forall>entry \<in> set res. map_of pn (fst entry) = catalog (fst entry)"
  shows "to_asv_loop pn cols made out = Inr (out @ res)"
  using assms
proof (induction res made arbitrary: out rule: list_all2_induct)
  case Nil
  then show ?case by simp
next
  case (Cons entry res m made)
  obtain b lines where entry: "entry = (b, lines)" by (cases entry)
  obtain b' rs where m: "m = (b', rs)" by (cases m)
  from Cons.hyps(1) entry m have b': "b' = b"
    and cols: "bench_columns b (catalog b) cols rs = Inr lines"
    by (simp_all add: entry_roundtrip_def)
  have fresh: "map_of out b = None"
    using Cons.prems(2) entry by (auto simp: map_of_eq_None_iff)
  have look: "map_of pn b = catalog b" using Cons.prems(3) entry by simp
  have step: "to_asv_loop pn cols (m # made) out = to_asv_loop pn cols made (out @ [(b, lines)])"
    using m b' cols look by (simp add: update_fresh [OF fresh])
  have "to_asv_loop pn cols made (out @ [(b, lines)]) = Inr ((out @ [(b, lines)]) @ res)"
    using Cons.prems entry by (intro Cons.IH) auto
  then show ?case using step entry by simp
qed


text \<open>
  A file whose \<open>results\<close> hold no benchmark converts to an object form without records,
  which the conversion back refuses.
\<close>

lemma roundtrip_without_benchmark:
  "results x = Some [] \<Longrightarrow>
   to_octobus_results catalog x =
     Inr (x\<lparr>octobus_results := Some [], bench_param_names := Some []\<rparr>)
   \<and> octobus_results_to_asv_results
       (x\<lparr>octobus_results := Some [], bench_param_names := Some []\<rparr>) =
       Inl (UserError EmptyOctobusResults)"
  by (simp add: to_octobus_results_def octobus_results_to_asv_results_def)

text \<open>
  C2, as stated: converting a column-form file made by a full cartesian expansion to
  object form and back gives the file again. The file below is in that form (its one
  vector column has three entries, as many as there are parameter combinations), and its
  lines stop before the declared scalar column \<open>version\<close>; the conversion back emits a
  null for that column, so the lines come back one entry longer.
\<close>

theorem roundtrip_counterexample:
  "cartesian_column_form initial_catalog initial_contents
   \<and> to_octobus_results initial_catalog initial_contents = Inr initial_object
   \<and> octobus_results_to_asv_results initial_object =
       Inr (initial_object\<lparr>results := Some
         [(''bench_whatever'',
           [JList [JNum 1, JNum 2, JNum 3],
            JList [JList [JStr ''lad'', JStr ''m8'', JStr ''thing'']],
            JNull])]\<rparr>)
   \<and> results initial_contents = Some
         [(''bench_whatever'',
           [JList [JNum 1, JNum 2, JNum 3],
            JList [JList [JStr ''lad'', JStr ''m8'', JStr ''thing'']]])]"
proof -
  have form: "cartesian_column_form initial_catalog initial_contents"
    by (simp add: cartesian_column_form_def initial_catalog_def initial_contents_def
        cartesian_lines_def dimension_ok_def dimension_size_def column_ok_def
        SCALAR_COLUMNS_def)
  have obj: "to_octobus_results initial_catalog initial_contents = Inr initial_object"
    by (simp add: to_octobus_results_def initial_catalog_def initial_contents_def
        initial_object_def bench_records_def ordered_dict_def build_record_def
        dict_append_def enumerate_eq_zip upt_rec)
  have col: "octobus_results_to_asv_results initial_object =
       Inr (initial_object\<lparr>results := Some
         [(''bench_whatever'',
           [JList [JNum 1, JNum 2, JNum 3],
            JList [JList [JStr ''lad'', JStr ''m8'', JStr ''thing'']],
            JNull])]\<rparr>)"
    by (simp add: octobus_results_to_asv_results_def initial_object_def initial_contents_def
        bench_columns_def bench_asv_results_def SCALAR_COLUMNS_def setdefault_def
        ordered_set_add_def)
  show ?thesis using form obj col by (simp add: initial_contents_def)
qed

text \<open>
  C2, amended. For every column-form file made by a full cartesian expansion over the
  declared parameters of its benchmarks that has at least one benchmark and whose lines
  stop, for every benchmark, at the end of the declared columns or before a column that
  is not a scalar one: converting it to object form succeeds, and converting the result
  back to column form returns that result unchanged, with the \<open>results\<close> (scalar and
  vector columns alike), the declared columns, the marker and every other key of the
  original file; the keys \<open>octobus_results\<close> and \<open>bench_param_names\<close> of the object
  form are what the returned file holds besides.
\<close>

theorem cartesian_roundtrip:
  assumes form: "cartesian_column_form catalog x"
    and cutv: "lines_cut_at_vector x"
  shows "\<exists>y. to_octobus_results catalog x = Inr y \<and>
             octobus_results_to_asv_results y = Inr y \<and>
             results y = results x \<and> result_columns y = result_columns x \<and>
             migration_version y = migration_version x \<and> other_keys y = other_keys x"
proof -
  from form obtain res cols where res: "results x = Some res" and cols: "result_columns x = Some cols"
    and dr: "distinct (map fst res)" and dc: "distinct cols"
    and wf: "list_all (\<lambda>entry. case catalog (fst entry) of None \<Rightarrow> False
                   | Some names \<Rightarrow> cartesian_lines names cols (snd entry)) res"
    by (auto simp: cartesian_column_form_def split: option.splits)
  from cutv res cols have ne: "res \<noteq> []"
    and cv: "list_all (\<lambda>entry. cut_at_vector cols (snd entry)) res"
    by (simp_all add: lines_cut_at_vector_def)
  let ?pn = "map (\<lambda>entry. (fst entry, the (catalog (fst entry)))) res"
  from to_octobus_loop_cartesian [OF dr dc _ _ wf cv, of "[]" "[]"]
  obtain made where loop: "to_octobus_loop catalog (Some cols) res [] [] = Inr (?pn, made)"
    and rt: "list_all2 (entry_roundtrip catalog cols) res made"
    by auto
  let ?y = "x\<lparr>octobus_results := Some made, bench_param_names := Some ?pn\<rparr>"
  have fwd: "to_octobus_results catalog x = Inr ?y"
    using res cols loop by (simp add: to_octobus_results_def)
  have mne: "made \<noteq> []" using rt ne by (auto simp: list_all2_Nil2)
  have pnl: "\<forall>entry \<in> set res. map_of ?pn (fst entry) = catalog (fst entry)"
  proof
    fix entry assume e: "entry \<in> set res"
    then have "catalog (fst entry) \<noteq> None" using wf by (auto simp: list_all_iff split: option.splits)
    moreover have "map_of ?pn (fst entry) = Some (the (catalog (fst entry)))"
      using e by (intro map_of_is_SomeI) (auto simp: comp_def dr)
    ultimately show "map_of ?pn (fst entry) = catalog (fst entry)" by auto
  qed
  have "to_asv_loop ?pn cols made [] = Inr ([] @ res)"
    by (rule to_asv_loop_roundtrip [OF rt dr _ pnl]) simp
  then have again: "octobus_results_to_asv_results ?y = Inr ?y"
    using mne cols res by (simp add: octobus_results_to_asv_results_def)
  show ?thesis using fwd again by auto
qed

theorem cartesian_roundtrip_witness:
  "cartesian_column_form reciprocity_catalog reciprocity_contents
   \<and> lines_cut_at_vector reciprocity_contents
   \<and> (\<exists>y. to_octobus_results reciprocity_catalog reciprocity_contents = Inr y \<and>
           octobus_results_to_asv_results y = Inr y \<and>
           results y = results reciprocity_contents)"
proof -
  have form: "cartesian_column_form reciprocity_catalog reciprocity_contents"
    by (simp add: cartesian_column_form_def reciprocity_catalog_def reciprocity_contents_def
        cartesian_lines_def dimension_ok_def dimension_size_def column_ok_def
        SCALAR_COLUMNS_def)
  have cutv: "lines_cut_at_vector reciprocity_contents"
    by (simp add: lines_cut_at_vector_def reciprocity_contents_def cut_at_vector_def
        SCALAR_COLUMNS_def)
  show ?thesis
    using cartesian_roundtrip [OF form cutv] form cutv by blast
qed

end
